theory Spec2Isabelle
  imports Main "HOL-Library.Word"
begin

section \<open>OptaButton: debounced button handler (OptaButton.h, OptaButton.cpp)\<close>

text \<open>
  The class \<open>OptaButton\<close> is embedded as a record of its member variables, the
  member function \<open>update()\<close> as a function from the state before the call to the
  state after it. The two file-scope/function-scope statics that all buttons share, the clock
  \<open>millis()\<close> and the input hardware are explicit arguments.

  Machine integers: \<open>uint8_t\<close>, \<open>uint16_t\<close>, \<open>uint32_t\<close> are words, so that
  \<open>now - lastUpdateTime\<close> wraps as in C++. The type \<open>int\<close> of the one expression that
  uses it (\<open>max(int(...), int(...))\<close>) is the 32-bit \<open>int\<close> of the Opta's Arm core, which
  holds every \<open>uint16_t\<close> and every difference of one and a \<open>uint8_t\<close>; it is written
  with HOL's \<open>int\<close> and narrowed back to 16 bits on assignment. On the AVR boards the
  header also names, \<open>int\<close> has 16 bits; the width of \<open>int\<close> is a parameter of the build
  (\<open>intWidth\<close>), and \<open>update\<close> evaluates the expression at that width.

  \<open>update()\<close> is cut into the blocks of its body, in the order of the source:
  \<open>clear_flags\<close> (lines 72 to 76), the rate limit (79 to 81), \<open>advance_token\<close> (84 to 88),
  \<open>readInput\<close> (91), \<open>edge_block\<close> (94 to 113), \<open>debounce_block\<close> (116 to 118) and
  \<open>hold_block\<close> (121 to 147) with \<open>long_press_block\<close> (123 to 129), \<open>repeat_block\<close>
  (132 to 135) and \<open>accel_block\<close> (138 to 146).
\<close>

type_synonym u8 = "8 word"
type_synonym u16 = "16 word"
type_synonym u32 = "32 word"

subsection \<open>Data\<close>

text \<open>\<open>DefLab::ButtonInputMode\<close> (declared in DefLab_Common.h; the three enumerators are
  the ones the switch statements of OptaButton.cpp name).\<close>

datatype ButtonInputMode = GPIO | OPTA_CTL | EXP_DIG

record OptaButton =
  inputMode :: ButtonInputMode
  inputID :: u8
  name :: string
  debounceTime :: u16
  invertedLogic :: bool
  longPressThreshold :: u16
  repeatIntervalStart :: u16
  repeatIntervalMin :: u16
  currentRepeatInterval :: u16
  acceleration :: u8
  lastUpdateTime :: u32
  edgeTime :: u32
  lastRepeatTime :: u32
  lastAccelUpdate :: u32
  rawState :: bool
  debouncing :: bool
  currentPressed :: bool
  longPressActive :: bool
  shortPressDetected :: bool
  releaseDetected :: bool
  longPressDetected :: bool
  longReleaseDetected :: bool
  repeatTriggered :: bool
  longPressReported :: bool

text \<open>The constructor's member initialiser list.\<close>

definition OptaButton_new ::
  "ButtonInputMode \<Rightarrow> u8 \<Rightarrow> string \<Rightarrow> u16 \<Rightarrow> bool \<Rightarrow> u16 \<Rightarrow> u16 \<Rightarrow> u16 \<Rightarrow> u8 \<Rightarrow> OptaButton" where
  "OptaButton_new mode inputPin label debounceMs inverted longPressMs repeatStartMs
       repeatMinMs accelRate =
     \<lparr> inputMode = mode, inputID = inputPin, name = label, debounceTime = debounceMs,
       invertedLogic = inverted, longPressThreshold = longPressMs,
       repeatIntervalStart = repeatStartMs, repeatIntervalMin = repeatMinMs,
       currentRepeatInterval = repeatStartMs, acceleration = accelRate,
       lastUpdateTime = 0, edgeTime = 0, lastRepeatTime = 0, lastAccelUpdate = 0,
       rawState = False, debouncing = False, currentPressed = False,
       longPressActive = False, shortPressDetected = False, releaseDetected = False,
       longPressDetected = False, longReleaseDetected = False, repeatTriggered = False,
       longPressReported = False \<rparr>"

text \<open>The constructor with the default arguments of the header.\<close>

definition OptaButton_default :: "ButtonInputMode \<Rightarrow> u8 \<Rightarrow> string \<Rightarrow> OptaButton" where
  "OptaButton_default mode inputPin label =
     OptaButton_new mode inputPin label 20 False 800 100 8 100"

definition LOOP_INTERVAL_MS :: u16 where
  "LOOP_INTERVAL_MS = 1"

text \<open>
  What the buttons share. \<open>g_optaExpRefreshToken\<close> is the file-scope static,
  \<open>lastTokenMs\<close> the static local of \<open>update()\<close>, \<open>lastExpRefreshToken\<close> the static
  local of \<open>readInput()\<close>. \<open>lastRefreshToken\<close> is the variable that the two refresh gates of
  \<open>readInput()\<close> compare the token with; neither OptaButton.cpp nor OptaButton.h declares
  it or assigns to it, so it is carried here as a value that no function of the model writes.
  \<open>refreshCalls\<close> logs every call of \<open>updateDigitalInputs()\<close>: the index of the expansion
  and the value of the token at the call.
\<close>

record Shared =
  g_optaExpRefreshToken :: u32
  lastTokenMs :: u32
  lastExpRefreshToken :: u32
  lastRefreshToken :: u32
  refreshCalls :: "(nat \<times> u32) list"

definition Shared_init :: "u32 \<Rightarrow> Shared" where
  "Shared_init ext =
     \<lparr> g_optaExpRefreshToken = 0, lastTokenMs = 0, lastExpRefreshToken = 0,
       lastRefreshToken = ext, refreshCalls = [] \<rparr>"

text \<open>
  An expansion slot as \<open>Opta::OptaController.getExpansion(i)\<close> presents it to the two
  conversions of the loop: a mechanical digital expansion, a solid-state digital expansion
  (each with the channel states its \<open>digitalRead\<close> returns), or neither.
\<close>

datatype Expansion = NoDigitalExpansion | DigitalMech "u8 \<Rightarrow> bool" | DigitalStSolid "u8 \<Rightarrow> bool"

text \<open>The width of the type \<open>int\<close> of the build: 16 bits on the AVR cores (Uno, Mega),
  32 bits on the Opta's Arm core.\<close>

datatype IntWidth = Int16 | Int32

text \<open>
  The platform at one call of \<open>update()\<close>: the build flag \<open>OPTA\<close>, the width of
  \<open>int\<close>, the value of \<open>millis()\<close>, the level \<open>digitalRead(pin)\<close> returns (\<open>True\<close> for
  HIGH), and the expansions at the indices \<open>0 ..< OPTA_CONTROLLER_MAX_EXPANSION_NUM\<close>.
\<close>

record Board =
  OPTA :: bool
  intWidth :: IntWidth
  millis :: u32
  digitalRead :: "u8 \<Rightarrow> bool"
  expansions :: "Expansion list"

subsection \<open>readInput()\<close>

text \<open>The gate in front of \<open>updateDigitalInputs()\<close>, the same for both kinds of expansion.\<close>

definition refresh_gate :: "Shared \<Rightarrow> nat \<Rightarrow> Shared" where
  "refresh_gate g i =
     (if g_optaExpRefreshToken g \<noteq> lastRefreshToken g
      then g\<lparr> refreshCalls := refreshCalls g @ [(i, g_optaExpRefreshToken g)],
              lastExpRefreshToken := g_optaExpRefreshToken g \<rparr>
      else g)"

text \<open>The \<open>for\<close> loop over the expansions, from index \<open>i\<close> on; \<open>raw\<close> stays \<open>false\<close>
  when the loop ends without a \<open>break\<close>.\<close>

fun scan_expansions :: "Shared \<Rightarrow> u8 \<Rightarrow> nat \<Rightarrow> Expansion list \<Rightarrow> bool \<times> Shared" where
  "scan_expansions g ch i [] = (False, g)"
| "scan_expansions g ch i (DigitalMech rd # es) = (rd ch, refresh_gate g i)"
| "scan_expansions g ch i (DigitalStSolid rd # es) = (rd ch, refresh_gate g i)"
| "scan_expansions g ch i (NoDigitalExpansion # es) = scan_expansions g ch (Suc i) es"

definition readInput :: "Shared \<Rightarrow> Board \<Rightarrow> OptaButton \<Rightarrow> bool \<times> Shared" where
  "readInput g hw b =
     (let (raw, g') =
        (case inputMode b of
           GPIO \<Rightarrow> (\<not> digitalRead hw (inputID b), g)
         | OPTA_CTL \<Rightarrow> (digitalRead hw (inputID b), g)
         | EXP_DIG \<Rightarrow>
             (if OPTA hw then scan_expansions g (inputID b) 0 (expansions hw)
              else (False, g)))
      in (if invertedLogic b then \<not> raw else raw, g'))"

subsection \<open>update()\<close>

definition clear_flags :: "OptaButton \<Rightarrow> OptaButton" where
  "clear_flags b =
     b\<lparr> shortPressDetected := False, releaseDetected := False, longPressDetected := False,
        longReleaseDetected := False, repeatTriggered := False \<rparr>"

text \<open>The token gate of \<open>update()\<close>.\<close>

definition advance_token :: "Shared \<Rightarrow> u32 \<Rightarrow> Shared" where
  "advance_token g now =
     (if now \<noteq> lastTokenMs g
      then g\<lparr> g_optaExpRefreshToken := g_optaExpRefreshToken g + 1, lastTokenMs := now \<rparr>
      else g)"

text \<open>Edge detection: \<open>if (pressed != rawState && !debouncing) { ... }\<close>.\<close>

definition edge_block :: "OptaButton \<Rightarrow> u32 \<Rightarrow> bool \<Rightarrow> OptaButton" where
  "edge_block b now pressed =
     (if pressed \<noteq> rawState b \<and> \<not> debouncing b then
        (let b1 = b\<lparr> rawState := pressed, debouncing := True, edgeTime := now \<rparr> in
         if pressed then
           b1\<lparr> shortPressDetected := True, currentPressed := True, longPressActive := False,
               currentRepeatInterval := repeatIntervalStart b1,
               lastRepeatTime := now, lastAccelUpdate := now \<rparr>
         else
           b1\<lparr> releaseDetected := True, longReleaseDetected := longPressActive b1,
               currentPressed := False, longPressActive := False,
               longPressReported := False \<rparr>)
      else b)"

text \<open>Leaving debounce: \<open>if (debouncing && (now - edgeTime >= debounceTime))\<close>.\<close>

definition debounce_block :: "OptaButton \<Rightarrow> u32 \<Rightarrow> OptaButton" where
  "debounce_block b now =
     (if debouncing b \<and> ucast (debounceTime b) \<le> now - edgeTime b
      then b\<lparr> debouncing := False \<rparr> else b)"

definition long_press_block :: "OptaButton \<Rightarrow> u32 \<Rightarrow> OptaButton" where
  "long_press_block b now =
     (if \<not> longPressReported b \<and> ucast (longPressThreshold b) \<le> now - edgeTime b
      then b\<lparr> longPressDetected := True, longPressActive := True, longPressReported := True,
              lastRepeatTime := now, lastAccelUpdate := now \<rparr>
      else b)"

definition repeat_block :: "OptaButton \<Rightarrow> u32 \<Rightarrow> OptaButton" where
  "repeat_block b now =
     (if longPressActive b \<and> ucast (currentRepeatInterval b) \<le> now - lastRepeatTime b
      then b\<lparr> repeatTriggered := True,
              lastRepeatTime := lastRepeatTime b + ucast (currentRepeatInterval b) \<rparr>
      else b)"

text \<open>\<open>max(int(currentRepeatInterval - acceleration), int(repeatIntervalMin))\<close>, assigned to
  the \<open>uint16_t\<close> member.

  With an \<open>int\<close> of 32 bits both operands of the subtraction are promoted to \<open>int\<close>, which
  holds the difference exactly (it lies between -255 and 65535), and both casts change
  nothing: the value is computed in HOL's \<open>int\<close> and narrowed on assignment.\<close>

definition accel_interval_int32 :: "u16 \<Rightarrow> u8 \<Rightarrow> u16 \<Rightarrow> u16" where
  "accel_interval_int32 cur acc mn = word_of_int (max (uint cur - uint acc) (uint mn))"

text \<open>With an \<open>int\<close> of 16 bits \<open>uint16_t\<close> is \<open>unsigned int\<close>: the subtraction is done
  in \<open>unsigned int\<close> and wraps, and both casts read the 16 bits as two's complement.\<close>

definition accel_interval_int16 :: "u16 \<Rightarrow> u8 \<Rightarrow> u16 \<Rightarrow> u16" where
  "accel_interval_int16 cur acc mn = word_of_int (max (sint (cur - ucast acc)) (sint mn))"

definition accel_interval :: "IntWidth \<Rightarrow> u16 \<Rightarrow> u8 \<Rightarrow> u16 \<Rightarrow> u16" where
  "accel_interval iw cur acc mn =
     (case iw of Int16 \<Rightarrow> accel_interval_int16 cur acc mn
               | Int32 \<Rightarrow> accel_interval_int32 cur acc mn)"

definition accel_block :: "IntWidth \<Rightarrow> OptaButton \<Rightarrow> u32 \<Rightarrow> OptaButton" where
  "accel_block iw b now =
     (if longPressActive b \<and> 1000 \<le> now - lastAccelUpdate b
         \<and> repeatIntervalMin b < currentRepeatInterval b
      then b\<lparr> currentRepeatInterval :=
                accel_interval iw (currentRepeatInterval b) (acceleration b) (repeatIntervalMin b),
              lastAccelUpdate := now \<rparr>
      else b)"

text \<open>\<open>if (!debouncing && currentPressed) { ... }\<close>: long press, repeat, acceleration.\<close>

definition hold_block :: "IntWidth \<Rightarrow> OptaButton \<Rightarrow> u32 \<Rightarrow> OptaButton" where
  "hold_block iw b now =
     (if \<not> debouncing b \<and> currentPressed b
      then accel_block iw (repeat_block (long_press_block b now) now) now
      else b)"

text \<open>Everything of \<open>update()\<close> after \<open>readInput()\<close> has returned.\<close>

definition state_machine :: "IntWidth \<Rightarrow> OptaButton \<Rightarrow> u32 \<Rightarrow> bool \<Rightarrow> OptaButton" where
  "state_machine iw b now pressed = hold_block iw (debounce_block (edge_block b now pressed) now) now"

definition update :: "Shared \<Rightarrow> Board \<Rightarrow> OptaButton \<Rightarrow> Shared \<times> OptaButton" where
  "update g hw b =
     (let b0 = clear_flags b; now = millis hw in
      if now - lastUpdateTime b0 < ucast LOOP_INTERVAL_MS then (g, b0)
      else
        (let b1 = b0\<lparr> lastUpdateTime := now \<rparr>;
             g1 = advance_token g now;
             (pressed, g2) = readInput g1 hw b1
         in (g2, state_machine (intWidth hw) b1 now pressed)))"

text \<open>The query functions.\<close>

definition isShortPressed :: "OptaButton \<Rightarrow> bool" where
  "isShortPressed b = shortPressDetected b"

definition isReleased :: "OptaButton \<Rightarrow> bool" where
  "isReleased b = releaseDetected b"

definition isLongPressed :: "OptaButton \<Rightarrow> bool" where
  "isLongPressed b = longPressDetected b"

definition isLongReleased :: "OptaButton \<Rightarrow> bool" where
  "isLongReleased b = longReleaseDetected b"

definition isRepeating :: "OptaButton \<Rightarrow> bool" where
  "isRepeating b = repeatTriggered b"

definition getLabel :: "OptaButton \<Rightarrow> string" where
  "getLabel b = name b"

subsection \<open>One button seen alone\<close>

text \<open>
  \<open>update()\<close> as one button sees it: the clock value and the value \<open>readInput()\<close> returned
  are given. \<open>update_button\<close> below shows that this is the button component of \<open>update\<close>,
  \<open>updates_trace\<close> that a loop of \<open>update()\<close> calls is a \<open>trace\<close> of such calls.
\<close>

definition poll :: "IntWidth \<Rightarrow> OptaButton \<Rightarrow> u32 \<Rightarrow> bool \<Rightarrow> OptaButton" where
  "poll iw b now pressed =
     (let b0 = clear_flags b in
      if now - lastUpdateTime b0 < ucast LOOP_INTERVAL_MS then b0
      else state_machine iw (b0\<lparr> lastUpdateTime := now \<rparr>) now pressed)"

text \<open>The value \<open>readInput()\<close> returns inside \<open>update g hw b\<close> (when the call is not skipped).\<close>

definition reading :: "Shared \<Rightarrow> Board \<Rightarrow> OptaButton \<Rightarrow> bool" where
  "reading g hw b = fst (readInput (advance_token g (millis hw)) hw b)"

text \<open>The main loop calling \<open>update()\<close> of one button again and again: the state after each
  call.\<close>

fun trace :: "IntWidth \<Rightarrow> OptaButton \<Rightarrow> (u32 \<times> bool) list \<Rightarrow> OptaButton list" where
  "trace iw b [] = []"
| "trace iw b (p # ps) = poll iw b (fst p) (snd p) # trace iw (poll iw b (fst p) (snd p)) ps"

subsection \<open>States the main loop can reach\<close>

text \<open>
  What every state reached from the constructor by calls of \<open>update()\<close> satisfies
  (\<open>consistent_new\<close>, \<open>consistent_update\<close>): the debounced state follows the recorded raw
  state, long press is active exactly when it has been reported, and only while pressed.
\<close>

definition consistent :: "OptaButton \<Rightarrow> bool" where
  "consistent b =
     (currentPressed b = rawState b \<and> longPressActive b = longPressReported b
      \<and> (longPressReported b \<longrightarrow> currentPressed b))"

text \<open>The acceleration branch (lines 138 to 146) is taken in the call.\<close>

definition accel_step :: "OptaButton \<Rightarrow> u32 \<Rightarrow> bool \<Rightarrow> bool" where
  "accel_step b now pressed =
     (now \<noteq> lastUpdateTime b \<and>
      (let b2 = debounce_block (edge_block ((clear_flags b)\<lparr> lastUpdateTime := now \<rparr>) now pressed) now;
           b3 = repeat_block (long_press_block b2 now) now
       in \<not> debouncing b2 \<and> currentPressed b2 \<and> longPressActive b3
          \<and> 1000 \<le> now - lastAccelUpdate b3
          \<and> repeatIntervalMin b3 < currentRepeatInterval b3))"

subsection \<open>Runs: one press, held, then released\<close>

text \<open>Not pressed and out of debounce: the state the constructor leaves, and the state the
  button is in again when a release has outlasted the debounce window.\<close>

definition idle :: "OptaButton \<Rightarrow> bool" where
  "idle b = (consistent b \<and> \<not> rawState b \<and> \<not> debouncing b)"

text \<open>Pressed since the edge at clock value \<open>t0\<close>; long press is reported only after
  debounce.\<close>

definition held :: "u32 \<Rightarrow> OptaButton \<Rightarrow> bool" where
  "held t0 b = (consistent b \<and> rawState b \<and> edgeTime b = t0
                \<and> \<not> (debouncing b \<and> longPressReported b))"

text \<open>What the calls of one press-hold-release must show: one short-press, one
  long-press-enter, one release, one long-release, and the last two in the same call.\<close>

definition cycle_events :: "OptaButton list \<Rightarrow> bool" where
  "cycle_events tr =
     (length (filter isShortPressed tr) = 1 \<and> length (filter isLongPressed tr) = 1
      \<and> length (filter isReleased tr) = 1 \<and> length (filter isLongReleased tr) = 1
      \<and> list_all (\<lambda>s. isReleased s = isLongReleased s) tr)"

text \<open>The calls of one press-hold-release: the reading is pressed at the clock values
  \<open>hs\<close>, then released at the clock values \<open>rs\<close>.\<close>

definition press_hold_release :: "u32 list \<Rightarrow> u32 list \<Rightarrow> (u32 \<times> bool) list" where
  "press_hold_release hs rs = map (\<lambda>t. (t, True)) hs @ map (\<lambda>t. (t, False)) rs"

text \<open>The hold is seen to last: at one of its calls the clock is at least the debounce
  window and at least the long-press threshold past the first call.\<close>

definition long_hold :: "OptaButton \<Rightarrow> u32 list \<Rightarrow> bool" where
  "long_hold b hs =
     (\<exists>t\<in>set hs. ucast (debounceTime b) \<le> t - hd hs \<and> ucast (longPressThreshold b) \<le> t - hd hs)"

text \<open>The main loop calling \<open>update()\<close> of one button on successive boards, and the clock
  values and readings of these calls.\<close>

fun updates :: "Shared \<Rightarrow> OptaButton \<Rightarrow> Board list \<Rightarrow> OptaButton list" where
  "updates g b [] = []"
| "updates g b (hw # hws) =
     snd (update g hw b) # updates (fst (update g hw b)) (snd (update g hw b)) hws"

fun readings :: "Shared \<Rightarrow> OptaButton \<Rightarrow> Board list \<Rightarrow> (u32 \<times> bool) list" where
  "readings g b [] = []"
| "readings g b (hw # hws) =
     (millis hw, reading g hw b) # readings (fst (update g hw b)) (snd (update g hw b)) hws"

subsection \<open>Concrete inputs\<close>

text \<open>An Opta (32-bit \<open>int\<close>) at clock value \<open>t\<close> whose pins all read \<open>level\<close>, with
  the given expansions.\<close>

definition board_at :: "u32 \<Rightarrow> bool \<Rightarrow> Expansion list \<Rightarrow> Board" where
  "board_at t level es =
     \<lparr> OPTA = True, intWidth = Int32, millis = t, digitalRead = (\<lambda>_. level), expansions = es \<rparr>"

text \<open>An AVR board (16-bit \<open>int\<close>, no expansions) at clock value \<open>t\<close> whose pins all read
  \<open>level\<close>.\<close>

definition avr_board_at :: "u32 \<Rightarrow> bool \<Rightarrow> Board" where
  "avr_board_at t level =
     \<lparr> OPTA = False, intWidth = Int16, millis = t, digitalRead = (\<lambda>_. level), expansions = [] \<rparr>"

text \<open>A GPIO button with a repeat interval of 32800 ms, a minimum of 32768 ms and an
  acceleration step of 100 ms.\<close>

definition slow_button :: OptaButton where
  "slow_button = OptaButton_new GPIO 2 ''slow'' 20 False 800 32800 32768 100"

text \<open>A GPIO button with the header's default timing, after one \<open>update()\<close> at clock value 5
  with its pin LOW (pressed).\<close>

definition pressed_at_5 :: OptaButton where
  "pressed_at_5 = snd (update (Shared_init 0) (board_at 5 False []) (OptaButton_default GPIO 2 ''up''))"

text \<open>A held button in long press whose timestamps lie just below \<open>2 ^ 32\<close>.\<close>

definition near_wrap :: OptaButton where
  "near_wrap = (OptaButton_default GPIO 2 ''wrap'')
     \<lparr> lastUpdateTime := 4294967295, edgeTime := 4294967276, lastRepeatTime := 4294967196,
       lastAccelUpdate := 4294966303, rawState := True, debouncing := True,
       currentPressed := True, longPressActive := True, longPressReported := True \<rparr>"

text \<open>A controller with one mechanical digital expansion, all channels low.\<close>

definition one_mech :: "Expansion list" where
  "one_mech = [DigitalMech (\<lambda>_. False)]"

text \<open>A held button in long press at the default timing: pressed at 0, long press at 800,
  last repeat at 1700, last poll at 1799.\<close>

definition held_long :: OptaButton where
  "held_long = (OptaButton_default GPIO 2 ''hold'')
     \<lparr> lastUpdateTime := 1799, edgeTime := 0, lastRepeatTime := 1700, lastAccelUpdate := 800,
       rawState := True, currentPressed := True, longPressActive := True,
       longPressReported := True \<rparr>"

section \<open>Basic facts\<close>

lemma readInput_config:
  "readInput g hw (b\<lparr> lastUpdateTime := t \<rparr>) = readInput g hw b"
  "readInput g hw (clear_flags b) = readInput g hw b"
  by (simp_all add: readInput_def clear_flags_def split: ButtonInputMode.splits)

lemma update_button:
  "snd (update g hw b) = poll (intWidth hw) b (millis hw) (reading g hw b)"
  by (simp add: update_def poll_def reading_def Let_def readInput_config split: prod.splits)

lemma too_soon_iff: "(now - t < ucast LOOP_INTERVAL_MS) = (now = (t::u32))"
  by (simp add: LOOP_INTERVAL_MS_def word_less_1)

subsection \<open>What each block of update() does to each member\<close>

lemma clear_flags_sel [simp]:
  "inputMode (clear_flags b) = inputMode b"
  "inputID (clear_flags b) = inputID b"
  "name (clear_flags b) = name b"
  "debounceTime (clear_flags b) = debounceTime b"
  "invertedLogic (clear_flags b) = invertedLogic b"
  "longPressThreshold (clear_flags b) = longPressThreshold b"
  "repeatIntervalStart (clear_flags b) = repeatIntervalStart b"
  "repeatIntervalMin (clear_flags b) = repeatIntervalMin b"
  "currentRepeatInterval (clear_flags b) = currentRepeatInterval b"
  "acceleration (clear_flags b) = acceleration b"
  "lastUpdateTime (clear_flags b) = lastUpdateTime b"
  "edgeTime (clear_flags b) = edgeTime b"
  "lastRepeatTime (clear_flags b) = lastRepeatTime b"
  "lastAccelUpdate (clear_flags b) = lastAccelUpdate b"
  "rawState (clear_flags b) = rawState b"
  "debouncing (clear_flags b) = debouncing b"
  "currentPressed (clear_flags b) = currentPressed b"
  "longPressActive (clear_flags b) = longPressActive b"
  "shortPressDetected (clear_flags b) = False"
  "releaseDetected (clear_flags b) = False"
  "longPressDetected (clear_flags b) = False"
  "longReleaseDetected (clear_flags b) = False"
  "repeatTriggered (clear_flags b) = False"
  "longPressReported (clear_flags b) = longPressReported b"
  by (auto simp add: clear_flags_def)

lemma edge_block_sel [simp]:
  "inputMode (edge_block b now pressed) = inputMode b"
  "inputID (edge_block b now pressed) = inputID b"
  "name (edge_block b now pressed) = name b"
  "debounceTime (edge_block b now pressed) = debounceTime b"
  "invertedLogic (edge_block b now pressed) = invertedLogic b"
  "longPressThreshold (edge_block b now pressed) = longPressThreshold b"
  "repeatIntervalStart (edge_block b now pressed) = repeatIntervalStart b"
  "repeatIntervalMin (edge_block b now pressed) = repeatIntervalMin b"
  "currentRepeatInterval (edge_block b now pressed) = (if (pressed \<noteq> rawState b \<and> \<not> debouncing b) \<and> pressed then repeatIntervalStart b else currentRepeatInterval b)"
  "acceleration (edge_block b now pressed) = acceleration b"
  "lastUpdateTime (edge_block b now pressed) = lastUpdateTime b"
  "edgeTime (edge_block b now pressed) = (if (pressed \<noteq> rawState b \<and> \<not> debouncing b) then now else edgeTime b)"
  "lastRepeatTime (edge_block b now pressed) = (if (pressed \<noteq> rawState b \<and> \<not> debouncing b) \<and> pressed then now else lastRepeatTime b)"
  "lastAccelUpdate (edge_block b now pressed) = (if (pressed \<noteq> rawState b \<and> \<not> debouncing b) \<and> pressed then now else lastAccelUpdate b)"
  "rawState (edge_block b now pressed) = (if (pressed \<noteq> rawState b \<and> \<not> debouncing b) then pressed else rawState b)"
  "debouncing (edge_block b now pressed) = ((pressed \<noteq> rawState b \<and> \<not> debouncing b) \<or> debouncing b)"
  "currentPressed (edge_block b now pressed) = (if (pressed \<noteq> rawState b \<and> \<not> debouncing b) then pressed else currentPressed b)"
  "longPressActive (edge_block b now pressed) = (\<not> (pressed \<noteq> rawState b \<and> \<not> debouncing b) \<and> longPressActive b)"
  "shortPressDetected (edge_block b now pressed) = ((pressed \<noteq> rawState b \<and> \<not> debouncing b) \<and> pressed \<or> shortPressDetected b)"
  "releaseDetected (edge_block b now pressed) = ((pressed \<noteq> rawState b \<and> \<not> debouncing b) \<and> \<not> pressed \<or> releaseDetected b)"
  "longPressDetected (edge_block b now pressed) = longPressDetected b"
  "longReleaseDetected (edge_block b now pressed) = (if (pressed \<noteq> rawState b \<and> \<not> debouncing b) \<and> \<not> pressed then longPressActive b else longReleaseDetected b)"
  "repeatTriggered (edge_block b now pressed) = repeatTriggered b"
  "longPressReported (edge_block b now pressed) = (\<not> ((pressed \<noteq> rawState b \<and> \<not> debouncing b) \<and> \<not> pressed) \<and> longPressReported b)"
  by (auto simp add: edge_block_def Let_def)

lemma debounce_block_sel [simp]:
  "inputMode (debounce_block b now) = inputMode b"
  "inputID (debounce_block b now) = inputID b"
  "name (debounce_block b now) = name b"
  "debounceTime (debounce_block b now) = debounceTime b"
  "invertedLogic (debounce_block b now) = invertedLogic b"
  "longPressThreshold (debounce_block b now) = longPressThreshold b"
  "repeatIntervalStart (debounce_block b now) = repeatIntervalStart b"
  "repeatIntervalMin (debounce_block b now) = repeatIntervalMin b"
  "currentRepeatInterval (debounce_block b now) = currentRepeatInterval b"
  "acceleration (debounce_block b now) = acceleration b"
  "lastUpdateTime (debounce_block b now) = lastUpdateTime b"
  "edgeTime (debounce_block b now) = edgeTime b"
  "lastRepeatTime (debounce_block b now) = lastRepeatTime b"
  "lastAccelUpdate (debounce_block b now) = lastAccelUpdate b"
  "rawState (debounce_block b now) = rawState b"
  "debouncing (debounce_block b now) = (debouncing b \<and> \<not> ucast (debounceTime b) \<le> now - edgeTime b)"
  "currentPressed (debounce_block b now) = currentPressed b"
  "longPressActive (debounce_block b now) = longPressActive b"
  "shortPressDetected (debounce_block b now) = shortPressDetected b"
  "releaseDetected (debounce_block b now) = releaseDetected b"
  "longPressDetected (debounce_block b now) = longPressDetected b"
  "longReleaseDetected (debounce_block b now) = longReleaseDetected b"
  "repeatTriggered (debounce_block b now) = repeatTriggered b"
  "longPressReported (debounce_block b now) = longPressReported b"
  by (auto simp add: debounce_block_def)

lemma long_press_block_sel [simp]:
  "inputMode (long_press_block b now) = inputMode b"
  "inputID (long_press_block b now) = inputID b"
  "name (long_press_block b now) = name b"
  "debounceTime (long_press_block b now) = debounceTime b"
  "invertedLogic (long_press_block b now) = invertedLogic b"
  "longPressThreshold (long_press_block b now) = longPressThreshold b"
  "repeatIntervalStart (long_press_block b now) = repeatIntervalStart b"
  "repeatIntervalMin (long_press_block b now) = repeatIntervalMin b"
  "currentRepeatInterval (long_press_block b now) = currentRepeatInterval b"
  "acceleration (long_press_block b now) = acceleration b"
  "lastUpdateTime (long_press_block b now) = lastUpdateTime b"
  "edgeTime (long_press_block b now) = edgeTime b"
  "lastRepeatTime (long_press_block b now) = (if (\<not> longPressReported b \<and> ucast (longPressThreshold b) \<le> now - edgeTime b) then now else lastRepeatTime b)"
  "lastAccelUpdate (long_press_block b now) = (if (\<not> longPressReported b \<and> ucast (longPressThreshold b) \<le> now - edgeTime b) then now else lastAccelUpdate b)"
  "rawState (long_press_block b now) = rawState b"
  "debouncing (long_press_block b now) = debouncing b"
  "currentPressed (long_press_block b now) = currentPressed b"
  "longPressActive (long_press_block b now) = ((\<not> longPressReported b \<and> ucast (longPressThreshold b) \<le> now - edgeTime b) \<or> longPressActive b)"
  "shortPressDetected (long_press_block b now) = shortPressDetected b"
  "releaseDetected (long_press_block b now) = releaseDetected b"
  "longPressDetected (long_press_block b now) = ((\<not> longPressReported b \<and> ucast (longPressThreshold b) \<le> now - edgeTime b) \<or> longPressDetected b)"
  "longReleaseDetected (long_press_block b now) = longReleaseDetected b"
  "repeatTriggered (long_press_block b now) = repeatTriggered b"
  "longPressReported (long_press_block b now) = (ucast (longPressThreshold b) \<le> now - edgeTime b \<or> longPressReported b)"
  by (auto simp add: long_press_block_def)

lemma repeat_block_sel [simp]:
  "inputMode (repeat_block b now) = inputMode b"
  "inputID (repeat_block b now) = inputID b"
  "name (repeat_block b now) = name b"
  "debounceTime (repeat_block b now) = debounceTime b"
  "invertedLogic (repeat_block b now) = invertedLogic b"
  "longPressThreshold (repeat_block b now) = longPressThreshold b"
  "repeatIntervalStart (repeat_block b now) = repeatIntervalStart b"
  "repeatIntervalMin (repeat_block b now) = repeatIntervalMin b"
  "currentRepeatInterval (repeat_block b now) = currentRepeatInterval b"
  "acceleration (repeat_block b now) = acceleration b"
  "lastUpdateTime (repeat_block b now) = lastUpdateTime b"
  "edgeTime (repeat_block b now) = edgeTime b"
  "lastRepeatTime (repeat_block b now) = (if (longPressActive b \<and> ucast (currentRepeatInterval b) \<le> now - lastRepeatTime b) then lastRepeatTime b + ucast (currentRepeatInterval b) else lastRepeatTime b)"
  "lastAccelUpdate (repeat_block b now) = lastAccelUpdate b"
  "rawState (repeat_block b now) = rawState b"
  "debouncing (repeat_block b now) = debouncing b"
  "currentPressed (repeat_block b now) = currentPressed b"
  "longPressActive (repeat_block b now) = longPressActive b"
  "shortPressDetected (repeat_block b now) = shortPressDetected b"
  "releaseDetected (repeat_block b now) = releaseDetected b"
  "longPressDetected (repeat_block b now) = longPressDetected b"
  "longReleaseDetected (repeat_block b now) = longReleaseDetected b"
  "repeatTriggered (repeat_block b now) = ((longPressActive b \<and> ucast (currentRepeatInterval b) \<le> now - lastRepeatTime b) \<or> repeatTriggered b)"
  "longPressReported (repeat_block b now) = longPressReported b"
  by (auto simp add: repeat_block_def)

lemma accel_block_sel [simp]:
  "inputMode (accel_block iw b now) = inputMode b"
  "inputID (accel_block iw b now) = inputID b"
  "name (accel_block iw b now) = name b"
  "debounceTime (accel_block iw b now) = debounceTime b"
  "invertedLogic (accel_block iw b now) = invertedLogic b"
  "longPressThreshold (accel_block iw b now) = longPressThreshold b"
  "repeatIntervalStart (accel_block iw b now) = repeatIntervalStart b"
  "repeatIntervalMin (accel_block iw b now) = repeatIntervalMin b"
  "currentRepeatInterval (accel_block iw b now) = (if (longPressActive b \<and> 1000 \<le> now - lastAccelUpdate b \<and> repeatIntervalMin b < currentRepeatInterval b) then accel_interval iw (currentRepeatInterval b) (acceleration b) (repeatIntervalMin b) else currentRepeatInterval b)"
  "acceleration (accel_block iw b now) = acceleration b"
  "lastUpdateTime (accel_block iw b now) = lastUpdateTime b"
  "edgeTime (accel_block iw b now) = edgeTime b"
  "lastRepeatTime (accel_block iw b now) = lastRepeatTime b"
  "lastAccelUpdate (accel_block iw b now) = (if (longPressActive b \<and> 1000 \<le> now - lastAccelUpdate b \<and> repeatIntervalMin b < currentRepeatInterval b) then now else lastAccelUpdate b)"
  "rawState (accel_block iw b now) = rawState b"
  "debouncing (accel_block iw b now) = debouncing b"
  "currentPressed (accel_block iw b now) = currentPressed b"
  "longPressActive (accel_block iw b now) = longPressActive b"
  "shortPressDetected (accel_block iw b now) = shortPressDetected b"
  "releaseDetected (accel_block iw b now) = releaseDetected b"
  "longPressDetected (accel_block iw b now) = longPressDetected b"
  "longReleaseDetected (accel_block iw b now) = longReleaseDetected b"
  "repeatTriggered (accel_block iw b now) = repeatTriggered b"
  "longPressReported (accel_block iw b now) = longPressReported b"
  by (auto simp add: accel_block_def)

subsection \<open>The rate limit\<close>

lemma poll_lastUpdateTime [simp]: "lastUpdateTime (poll iw b now pressed) = now"
  by (simp add: poll_def state_machine_def hold_block_def Let_def too_soon_iff)

lemma poll_skip: "now = lastUpdateTime b \<Longrightarrow> poll iw b now pressed = clear_flags b"
  by (simp add: poll_def Let_def too_soon_iff)

lemma poll_run: "now \<noteq> lastUpdateTime b \<Longrightarrow>
    poll iw b now pressed = state_machine iw ((clear_flags b)\<lparr> lastUpdateTime := now \<rparr>) now pressed"
  by (simp add: poll_def Let_def too_soon_iff)

lemma update_skip: "millis hw = lastUpdateTime b \<Longrightarrow> update g hw b = (g, clear_flags b)"
  by (simp add: update_def Let_def too_soon_iff)

lemma default_sel [simp]:
  "lastUpdateTime (OptaButton_default m p l) = 0"
  "rawState (OptaButton_default m p l) = False"
  "debouncing (OptaButton_default m p l) = False"
  "currentPressed (OptaButton_default m p l) = False"
  "longPressActive (OptaButton_default m p l) = False"
  "longPressReported (OptaButton_default m p l) = False"
  "debounceTime (OptaButton_default m p l) = 20"
  "longPressThreshold (OptaButton_default m p l) = 800"
  "repeatIntervalStart (OptaButton_default m p l) = 100"
  "repeatIntervalMin (OptaButton_default m p l) = 8"
  "currentRepeatInterval (OptaButton_default m p l) = 100"
  "acceleration (OptaButton_default m p l) = 100"
  "edgeTime (OptaButton_default m p l) = 0"
  "lastRepeatTime (OptaButton_default m p l) = 0"
  "lastAccelUpdate (OptaButton_default m p l) = 0"
  by (simp_all add: OptaButton_default_def OptaButton_new_def)

lemma pressed_at_5_eq: "pressed_at_5 = poll Int32 (OptaButton_default GPIO 2 ''up'') 5 True"
  by (simp add: pressed_at_5_def update_button reading_def readInput_def board_at_def
      OptaButton_default_def OptaButton_new_def)

lemma pressed_at_5_short: "shortPressDetected pressed_at_5"
  by (simp add: pressed_at_5_eq poll_run state_machine_def hold_block_def)

subsection \<open>Word arithmetic of the time tests\<close>

lemma unat_ucast_16_32: "unat (ucast (x::u16) :: u32) = unat x"
proof -
  have "unat x < 2 ^ 16" using unsigned_less [of x] by simp
  then have "unat x < 2 ^ 32" by simp
  then show ?thesis by (simp add: unsigned_ucast_eq take_bit_nat_eq_self)
qed

lemma ucast16_le_iff: "(ucast (x::u16) \<le> (w::u32)) = (unat x \<le> unat w)"
  by (simp add: word_le_nat_alt unat_ucast_16_32)

lemma ucast16_eq_0_iff: "(ucast (x::u16) = (0::u32)) = (x = 0)"
  by (metis unat_ucast_16_32 unat_0_iff)

lemma unat_elapsed:
  "T \<le> N \<Longrightarrow> N - T < 2 ^ 32 \<Longrightarrow> unat ((of_nat N :: u32) - of_nat T) = N - T"
proof -
  assume a: "T \<le> N" "N - T < 2 ^ 32"
  have "(of_nat N :: u32) - of_nat T = of_nat (N - T)" using a(1) by simp
  then show ?thesis using a(2) by (simp add: unat_of_nat)
qed

lemma near_wrap_sel [simp]:
  "lastUpdateTime near_wrap = 4294967295" "edgeTime near_wrap = 4294967276"
  "lastRepeatTime near_wrap = 4294967196" "lastAccelUpdate near_wrap = 4294966303"
  "debouncing near_wrap" "longPressActive near_wrap" "longPressReported near_wrap"
  "debounceTime near_wrap = 20" "currentRepeatInterval near_wrap = 100"
  "repeatIntervalMin near_wrap = 8" "acceleration near_wrap = 100"
  by (simp_all add: near_wrap_def)

lemma scan_expansions_none:
  "set es \<subseteq> {NoDigitalExpansion} \<Longrightarrow> scan_expansions g ch i es = (False, g)"
  by (induction es arbitrary: i) auto

subsection \<open>The shared state\<close>

lemma refresh_gate_sel [simp]:
  "g_optaExpRefreshToken (refresh_gate g i) = g_optaExpRefreshToken g"
  "lastTokenMs (refresh_gate g i) = lastTokenMs g"
  "lastRefreshToken (refresh_gate g i) = lastRefreshToken g"
  by (simp_all add: refresh_gate_def)

lemma scan_expansions_sel [simp]:
  "g_optaExpRefreshToken (snd (scan_expansions g ch i es)) = g_optaExpRefreshToken g"
  "lastTokenMs (snd (scan_expansions g ch i es)) = lastTokenMs g"
  "lastRefreshToken (snd (scan_expansions g ch i es)) = lastRefreshToken g"
  by (induction g ch i es rule: scan_expansions.induct) simp_all

lemma readInput_snd:
  "snd (readInput g hw b) =
     (if inputMode b = EXP_DIG \<and> OPTA hw
      then snd (scan_expansions g (inputID b) 0 (expansions hw)) else g)"
  by (simp add: readInput_def split_beta split: ButtonInputMode.splits)

lemma readInput_sel [simp]:
  "g_optaExpRefreshToken (snd (readInput g hw b)) = g_optaExpRefreshToken g"
  "lastTokenMs (snd (readInput g hw b)) = lastTokenMs g"
  "lastRefreshToken (snd (readInput g hw b)) = lastRefreshToken g"
  by (simp_all add: readInput_snd)

lemma update_fst:
  "fst (update g hw b) =
     (if millis hw = lastUpdateTime b then g
      else snd (readInput (advance_token g (millis hw)) hw b))"
  by (simp add: update_def Let_def too_soon_iff readInput_config split: prod.splits)

lemma update_token:
  "g_optaExpRefreshToken (fst (update g hw b)) =
     (if millis hw = lastUpdateTime b \<or> millis hw = lastTokenMs g
      then g_optaExpRefreshToken g else g_optaExpRefreshToken g + 1)"
  "millis hw \<noteq> lastUpdateTime b \<Longrightarrow> lastTokenMs (fst (update g hw b)) = millis hw"
  "lastRefreshToken (fst (update g hw b)) = lastRefreshToken g"
  by (simp_all add: update_fst advance_token_def)

lemma same_tick_same_token:
  assumes "millis hw \<noteq> lastUpdateTime a" and "millis hw' = millis hw"
  shows "g_optaExpRefreshToken (fst (update (fst (update g hw a)) hw' b))
           = g_optaExpRefreshToken (fst (update g hw a))"
  using assms update_token(2) [OF assms(1), of g]
  by (simp add: update_token(1))

lemma refresh_each_read:
  assumes "inputMode b = EXP_DIG" and "OPTA hw" and "expansions hw = DigitalMech rd # es"
    and "millis hw \<noteq> lastUpdateTime b"
    and "g_optaExpRefreshToken (fst (update g hw b)) \<noteq> lastRefreshToken g"
  shows "refreshCalls (fst (update g hw b)) =
           refreshCalls g @ [(0, g_optaExpRefreshToken (fst (update g hw b)))]"
  using assms
  by (auto simp add: update_fst readInput_snd refresh_gate_def advance_token_def
      split: if_splits)

subsection \<open>Reachable states, long press, repeat and acceleration\<close>

lemma consistent_new: "consistent (OptaButton_new m p l d i lp rs rm a)"
  by (simp add: consistent_def OptaButton_new_def)

lemma consistent_clear [simp]: "consistent (clear_flags b) = consistent b"
  by (simp add: consistent_def)

lemma consistent_lastUpdateTime [simp]:
  "consistent (b\<lparr> lastUpdateTime := t \<rparr>) = consistent b"
  by (simp add: consistent_def)

lemma consistent_state_machine:
  "consistent b \<Longrightarrow> consistent (state_machine iw b now pressed)"
  by (auto simp add: consistent_def state_machine_def hold_block_def)

lemma consistent_poll: "consistent b \<Longrightarrow> consistent (poll iw b now pressed)"
  by (cases "now = lastUpdateTime b")
     (simp_all add: poll_skip poll_run consistent_state_machine)

lemma consistent_update: "consistent b \<Longrightarrow> consistent (snd (update g hw b))"
  by (simp add: update_button consistent_poll)

lemma poll_hold_repeat:
  assumes "now \<noteq> lastUpdateTime b" "consistent b" "\<not> debouncing b" "longPressActive b"
    and "ucast (currentRepeatInterval b) \<le> now - lastRepeatTime b"
  shows "repeatTriggered (poll iw b now True)"
    and "lastRepeatTime (poll iw b now True) = lastRepeatTime b + ucast (currentRepeatInterval b)"
    and "\<not> debouncing (poll iw b now True)" and "longPressActive (poll iw b now True)"
    and "\<not> shortPressDetected (poll iw b now True)" and "\<not> releaseDetected (poll iw b now True)"
    and "\<not> longPressDetected (poll iw b now True)"
  using assms
  by (auto simp add: poll_run state_machine_def hold_block_def consistent_def)

lemma uint_accel_interval_int32:
  assumes "mn \<le> cur"
  shows "uint (accel_interval_int32 cur acc mn) = max (uint cur - uint acc) (uint mn)"
proof -
  let ?v = "max (uint cur - uint acc) (uint mn)"
  have m: "uint mn \<le> uint cur" using assms by (simp add: word_le_def)
  have c: "uint cur < 2 ^ 16" using uint_lt2p [of cur] by simp
  have lo: "0 \<le> ?v" using uint_ge_0 [of mn] by linarith
  have hi: "?v < 2 ^ 16" using m c uint_ge_0 [of acc] by linarith
  have "?v mod 2 ^ 16 = ?v" using lo hi by simp
  then show ?thesis by (simp add: accel_interval_int32_def uint_word_of_int)
qed

lemma accel_interval_int32_bounds:
  assumes "mn \<le> cur"
  shows "mn \<le> accel_interval_int32 cur acc mn" and "accel_interval_int32 cur acc mn \<le> cur"
  using assms uint_accel_interval_int32 [OF assms, of acc]
  by (auto simp add: word_le_def)

text \<open>With a 16-bit \<open>int\<close>.\<close>

lemma sint_small: "uint (w::u16) < 32768 \<Longrightarrow> sint w = uint w"
  by (simp add: sint_uint signed_take_bit_eq_if_positive bit_uint_iff [symmetric] take_bit_int_eq_self bit_iff_odd)

lemma uint_ucast_8_16: "uint (ucast (a::u8) :: u16) = uint a"
proof -
  have "uint a < 2 ^ 8" using uint_lt2p [of a] by simp
  then have "uint a < 2 ^ 16" by simp
  then show ?thesis by (simp add: unsigned_ucast_eq take_bit_int_eq_self)
qed

lemma sint_sub_small:
  assumes "uint (cur::u16) < 32768"
  shows "sint (cur - ucast (acc::u8)) = uint cur - uint acc"
proof -
  have a: "uint acc < 256" using uint_lt2p [of acc] by simp
  have e: "cur - ucast acc = (word_of_int (uint cur - uint acc) :: u16)"
    by (simp add: uint_ucast_8_16 [symmetric] del: uint_ucast_8_16)
  have "- 32768 \<le> uint cur - uint acc" using a uint_ge_0 [of cur] by linarith
  then have lo: "- (2 ^ 15) \<le> uint cur - uint acc" by simp
  have "uint cur - uint acc < 32768" using assms uint_ge_0 [of acc] by linarith
  then have hi: "uint cur - uint acc < 2 ^ 15" by simp
  have s: "sint (word_of_int (uint cur - uint acc) :: u16) = uint cur - uint acc"
    using lo hi by (subst sint_sbintrunc') (simp add: signed_take_bit_int_eq_self)
  show ?thesis by (simp only: e s)
qed

lemma accel_interval_int16_agrees:
  assumes "uint cur < 32768" and "mn \<le> cur"
  shows "accel_interval_int16 cur acc mn = accel_interval_int32 cur acc mn"
proof -
  have "uint mn \<le> uint cur" using assms(2) by (simp add: word_le_def)
  then have "uint mn < 32768" using assms(1) by simp
  then show ?thesis
    by (simp add: accel_interval_int16_def accel_interval_int32_def sint_small
        sint_sub_small [OF assms(1)])
qed

lemma int16_below_floor: "accel_interval_int16 32800 100 32768 = 32700"
  by (simp add: accel_interval_int16_def)

lemma int16_jumps_to_floor: "accel_interval_int16 40000 100 8 = 8"
  by (simp add: accel_interval_int16_def)

lemma int32_above_floor:
  "accel_interval_int32 32800 100 32768 = 32768" "accel_interval_int32 40000 100 8 = 39900"
  by (simp_all add: accel_interval_int32_def)

lemma accel_interval_int16_cases:
  "accel_interval_int16 cur acc mn = (if sint (cur - ucast acc) \<le> sint mn then mn else cur - ucast acc)"
  by (simp add: accel_interval_int16_def max_def)

lemma accel_interval_int16_le:
  assumes "mn < cur"
  shows "accel_interval_int16 cur acc mn \<le> cur"
proof (cases "uint acc \<le> uint cur")
  case True
  then have "(ucast acc :: u16) \<le> cur" by (simp add: word_le_def uint_ucast_8_16)
  then have "cur - ucast acc \<le> cur" by (simp add: word_sub_le)
  then show ?thesis using assms by (auto simp add: accel_interval_int16_cases)
next
  case False
  have a: "uint acc < 256" using uint_lt2p [of acc] by simp
  have c: "uint cur < 32768" using False a by linarith
  have "uint mn < uint cur" using assms by (simp add: word_less_def)
  then have m: "uint mn < 32768" using c by linarith
  have "sint (cur - ucast acc) < 0" using False by (simp add: sint_sub_small [OF c])
  moreover have "0 \<le> sint mn" by (simp add: sint_small [OF m])
  ultimately have "sint (cur - ucast acc) \<le> sint mn" by linarith
  then show ?thesis using assms by (auto simp add: accel_interval_int16_cases)
qed

text \<open>At either width.\<close>

lemma accel_interval_le: "mn < cur \<Longrightarrow> accel_interval iw cur acc mn \<le> cur"
  by (cases iw)
     (simp_all add: accel_interval_def accel_interval_int16_le accel_interval_int32_bounds)

lemma accel_interval_exact:
  assumes "iw = Int32 \<or> uint cur < 32768" and "mn \<le> cur"
  shows "accel_interval iw cur acc mn = accel_interval_int32 cur acc mn"
  using assms by (cases iw) (simp_all add: accel_interval_def accel_interval_int16_agrees)

lemma poll_hold_accel:
  assumes "now \<noteq> lastUpdateTime b" "consistent b" "\<not> debouncing b" "longPressActive b"
    and "1000 \<le> now - lastAccelUpdate b"
  shows "currentRepeatInterval (poll iw b now True) =
           (if repeatIntervalMin b < currentRepeatInterval b
            then accel_interval iw (currentRepeatInterval b) (acceleration b) (repeatIntervalMin b)
            else currentRepeatInterval b)"
    and "lastAccelUpdate (poll iw b now True) =
           (if repeatIntervalMin b < currentRepeatInterval b then now else lastAccelUpdate b)"
  using assms
  by (auto simp add: poll_run state_machine_def hold_block_def consistent_def)

lemma poll_no_accel:
  assumes "lastAccelUpdate b = t" "now - t < 1000"
  shows "currentRepeatInterval (poll iw b now pressed) =
           (if now \<noteq> lastUpdateTime b \<and> pressed \<and> \<not> rawState b \<and> \<not> debouncing b
            then repeatIntervalStart b else currentRepeatInterval b)"
  using assms
  by (cases "now = lastUpdateTime b")
     (auto simp add: poll_skip poll_run state_machine_def hold_block_def)

lemma poll_hold_interval_le:
  assumes "now \<noteq> lastUpdateTime b" "consistent b" "\<not> debouncing b" "longPressActive b"
  shows "currentRepeatInterval (poll iw b now True) \<le> currentRepeatInterval b"
proof -
  have "accel_interval iw (currentRepeatInterval b) (acceleration b) (repeatIntervalMin b)
          \<le> currentRepeatInterval b" if "repeatIntervalMin b < currentRepeatInterval b"
    using that by (rule accel_interval_le)
  then show ?thesis using assms
    by (auto simp add: poll_run state_machine_def hold_block_def consistent_def)
qed

lemma of_nat_neq_32:
  "d < d' \<Longrightarrow> d' < 2 ^ 32 \<Longrightarrow> (base :: u32) + of_nat d' \<noteq> base + of_nat d"
proof
  assume a: "d < d'" "d' < 2 ^ 32" and e: "base + of_nat d' = base + of_nat d"
  from e have "(of_nat d' :: u32) = of_nat d" by simp
  then have "unat (of_nat d' :: u32) = unat (of_nat d :: u32)" by simp
  then show False using a by (simp add: unat_of_nat)
qed

lemma repeat_catch_up:
  assumes "consistent b" "\<not> debouncing b" "longPressActive b"
    and "sorted_wrt (<) ds" and "\<forall>d\<in>set ds. e + d < 2 ^ 32"
    and "\<forall>d\<in>set ds. base + of_nat d \<noteq> lastUpdateTime b"
    and "lastRepeatTime b = base - of_nat e"
    and "length ds * unat (currentRepeatInterval b) \<le> e"
  shows "\<forall>i<length ds.
           repeatTriggered ((b # trace iw b (map (\<lambda>d. (base + of_nat d, True)) ds)) ! Suc i)
         \<and> lastRepeatTime ((b # trace iw b (map (\<lambda>d. (base + of_nat d, True)) ds)) ! Suc i)
             = lastRepeatTime ((b # trace iw b (map (\<lambda>d. (base + of_nat d, True)) ds)) ! i)
               + ucast (currentRepeatInterval
                   ((b # trace iw b (map (\<lambda>d. (base + of_nat d, True)) ds)) ! i))"
  using assms
proof (induction ds arbitrary: b e)
  case Nil
  then show ?case by simp
next
  case (Cons d ds)
  let ?now = "base + of_nat d"
  let ?b1 = "poll iw b ?now True"
  let ?c = "unat (currentRepeatInterval b)"
  have ns: "?now \<noteq> lastUpdateTime b" using Cons.prems(6) by simp
  have ce: "?c \<le> e" using Cons.prems(8) by simp
  have ed: "e + d < 2 ^ 32" using Cons.prems(5) by simp
  have el: "?now - lastRepeatTime b = of_nat (e + d)"
    by (simp add: Cons.prems(7))
  have ue: "unat (of_nat (e + d) :: u32) = e + d"
    using ed by (simp add: unat_of_nat del: of_nat_add)
  have due: "ucast (currentRepeatInterval b) \<le> ?now - lastRepeatTime b"
    unfolding el ucast16_le_iff ue using ce by simp
  note step = poll_hold_repeat [OF ns Cons.prems(1,2,3) due]
  have c1: "consistent ?b1" by (rule consistent_poll [OF Cons.prems(1)])
  have le: "unat (currentRepeatInterval ?b1) \<le> ?c"
    using poll_hold_interval_le [OF ns Cons.prems(1,2,3)] by (simp add: word_le_nat_alt)
  have l1: "lastRepeatTime ?b1 = base - of_nat (e - ?c)"
    using ce by (simp add: step(2) Cons.prems(7) of_nat_diff)
  have s1: "sorted_wrt (<) ds" using Cons.prems(4) by simp
  have b1: "\<forall>x\<in>set ds. (e - ?c) + x < 2 ^ 32" using Cons.prems(5) by auto
  have n1: "\<forall>x\<in>set ds. base + of_nat x \<noteq> lastUpdateTime ?b1"
  proof
    fix x assume x: "x \<in> set ds"
    have "d < x" using Cons.prems(4) x by simp
    moreover have "x < 2 ^ 32" using Cons.prems(5) x by auto
    ultimately have "base + of_nat x \<noteq> base + of_nat d" by (rule of_nat_neq_32)
    then show "base + of_nat x \<noteq> lastUpdateTime ?b1"
      unfolding poll_lastUpdateTime .
  qed
  have "length ds * unat (currentRepeatInterval ?b1) \<le> length ds * ?c"
    using le by simp
  also have "\<dots> \<le> e - ?c" using Cons.prems(8) by simp
  finally have k1: "length ds * unat (currentRepeatInterval ?b1) \<le> e - ?c" .
  note IH = Cons.IH [OF c1 step(3) step(4) s1 b1 n1 l1 k1]
  show ?case
  proof (intro allI impI)
    fix i assume "i < length (d # ds)"
    then show "repeatTriggered ((b # trace iw b (map (\<lambda>d. (base + of_nat d, True)) (d # ds))) ! Suc i)
         \<and> lastRepeatTime ((b # trace iw b (map (\<lambda>d. (base + of_nat d, True)) (d # ds))) ! Suc i)
             = lastRepeatTime ((b # trace iw b (map (\<lambda>d. (base + of_nat d, True)) (d # ds))) ! i)
               + ucast (currentRepeatInterval
                   ((b # trace iw b (map (\<lambda>d. (base + of_nat d, True)) (d # ds))) ! i))"
      using IH step(1,2) by (cases i) simp_all
  qed
qed

lemma accel_step_elapsed:
  "accel_step b now pressed \<Longrightarrow> 1000 \<le> now - lastAccelUpdate b"
  by (auto simp add: accel_step_def Let_def split: if_splits)

lemma accel_step_stamp:
  "accel_step b now pressed \<Longrightarrow> lastAccelUpdate (poll iw b now pressed) = now"
  by (auto simp add: accel_step_def Let_def poll_run state_machine_def hold_block_def
      split: if_splits)

lemma poll_lastAccelUpdate:
  "lastAccelUpdate (poll iw b now pressed) = lastAccelUpdate b
   \<or> lastAccelUpdate (poll iw b now pressed) = now"
  by (cases "now = lastUpdateTime b")
     (auto simp add: poll_skip poll_run state_machine_def hold_block_def)

lemma unat_elapsed_base:
  "a \<le> d \<Longrightarrow> d - a < 2 ^ 32 \<Longrightarrow> unat (((base::u32) + of_nat d) - (base + of_nat a)) = d - a"
  using unat_elapsed [of a d] by simp

lemma accel_spacing:
  assumes "lastAccelUpdate b = base + of_nat a"
    and "sorted (map fst drs)" and "\<forall>p\<in>set drs. a \<le> fst p \<and> fst p - a < 2 ^ 32"
  shows "\<forall>i<length drs.
           accel_step ((b # trace iw b (map (\<lambda>p. (base + of_nat (fst p), snd p)) drs)) ! i)
             (base + of_nat (fst (drs ! i))) (snd (drs ! i))
           \<longrightarrow> a + 1000 \<le> fst (drs ! i)"
  using assms
proof (induction drs arbitrary: b a)
  case Nil
  then show ?case by simp
next
  case (Cons p drs)
  let ?now = "base + of_nat (fst p)"
  let ?b1 = "poll iw b ?now (snd p)"
  have ad: "a \<le> fst p" "fst p - a < 2 ^ 32" using Cons.prems(3) by auto
  have el: "unat (?now - lastAccelUpdate b) = fst p - a"
    unfolding Cons.prems(1) by (rule unat_elapsed_base [OF ad])
  have hd: "a + 1000 \<le> fst p" if "accel_step b ?now (snd p)"
  proof -
    have "1000 \<le> unat (?now - lastAccelUpdate b)"
      using accel_step_elapsed [OF that] by (simp add: word_le_nat_alt)
    then show ?thesis unfolding el by simp
  qed
  obtain a1 where a1: "lastAccelUpdate ?b1 = base + of_nat a1" "a \<le> a1" "a1 \<le> fst p"
    using poll_lastAccelUpdate [where iw = iw and b = b and now = "?now" and pressed = "snd p"] Cons.prems(1) ad(1) by auto
  have s1: "sorted (map fst drs)" using Cons.prems(2) by simp
  have r1: "\<forall>q\<in>set drs. a1 \<le> fst q \<and> fst q - a1 < 2 ^ 32"
  proof
    fix q assume q: "q \<in> set drs"
    have "fst p \<le> fst q" using Cons.prems(2) q by auto
    moreover have "fst q - a < 2 ^ 32" using Cons.prems(3) q by auto
    ultimately show "a1 \<le> fst q \<and> fst q - a1 < 2 ^ 32" using a1(2,3) by auto
  qed
  note IH = Cons.IH [OF a1(1) s1 r1]
  show ?case
  proof (intro allI impI)
    fix i
    assume i: "i < length (p # drs)"
      and st: "accel_step ((b # trace iw b (map (\<lambda>p. (base + of_nat (fst p), snd p)) (p # drs))) ! i)
             (base + of_nat (fst ((p # drs) ! i))) (snd ((p # drs) ! i))"
    show "a + 1000 \<le> fst ((p # drs) ! i)"
    proof (cases i)
      case 0
      then show ?thesis using st hd by simp
    next
      case (Suc j)
      then have "a1 + 1000 \<le> fst (drs ! j)" using IH i st by simp
      then show ?thesis using a1(2) Suc by simp
    qed
  qed
qed

lemma held_long_sel [simp]:
  "lastUpdateTime held_long = 1799" "edgeTime held_long = 0"
  "lastRepeatTime held_long = 1700" "lastAccelUpdate held_long = 800"
  "rawState held_long" "\<not> debouncing held_long" "currentPressed held_long"
  "longPressActive held_long" "longPressReported held_long"
  "debounceTime held_long = 20" "currentRepeatInterval held_long = 100"
  "repeatIntervalMin held_long = 8" "acceleration held_long = 100"
  "inputMode held_long = GPIO" "invertedLogic held_long = False"
  by (simp_all add: held_long_def OptaButton_default_def OptaButton_new_def)

lemma held_long_reading: "reading g (board_at t False es) held_long"
  by (simp add: reading_def readInput_def board_at_def)

lemma board_at_millis [simp]: "millis (board_at t l es) = t"
  by (simp add: board_at_def)

subsection \<open>The debounce window\<close>

lemma unat_of_nat_32: "d < 2 ^ 32 \<Longrightarrow> unat (of_nat d :: u32) = d"
  by (simp add: unat_of_nat)

lemma u16_lt_2p32: "unat (w::u16) < 2 ^ 32"
proof -
  have "unat w < 2 ^ 16" using unsigned_less [of w] by simp
  then show ?thesis by simp
qed

text \<open>In debounce after an edge at clock value \<open>now0\<close>, polled less than the window
  after it.\<close>

lemma poll_in_debounce:
  assumes "debouncing b" and "edgeTime b = now0"
    and "unat (lastUpdateTime b - now0) < unat (debounceTime b)"
    and "d < unat (debounceTime b)"
  shows "\<not> shortPressDetected (poll iw b (now0 + of_nat d) r)"
    and "\<not> releaseDetected (poll iw b (now0 + of_nat d) r)"
    and "debouncing (poll iw b (now0 + of_nat d) r)"
    and "edgeTime (poll iw b (now0 + of_nat d) r) = now0"
    and "rawState (poll iw b (now0 + of_nat d) r) = rawState b"
    and "debounceTime (poll iw b (now0 + of_nat d) r) = debounceTime b"
    and "unat (lastUpdateTime (poll iw b (now0 + of_nat d) r) - now0) < unat (debounceTime b)"
proof -
  have d32: "d < 2 ^ 32" using assms(4) u16_lt_2p32 [of "debounceTime b"] by simp
  have u: "unat (of_nat d :: u32) = d" by (rule unat_of_nat_32 [OF d32])
  have nd: "\<not> ucast (debounceTime b) \<le> (of_nat d :: u32)"
    unfolding ucast16_le_iff u using assms(4) by simp
  show "\<not> shortPressDetected (poll iw b (now0 + of_nat d) r)"
    "\<not> releaseDetected (poll iw b (now0 + of_nat d) r)"
    "debouncing (poll iw b (now0 + of_nat d) r)"
    "edgeTime (poll iw b (now0 + of_nat d) r) = now0"
    "rawState (poll iw b (now0 + of_nat d) r) = rawState b"
    "debounceTime (poll iw b (now0 + of_nat d) r) = debounceTime b"
    using assms(1,2) nd
    by (cases "now0 + of_nat d = lastUpdateTime b";
        simp add: poll_skip poll_run state_machine_def hold_block_def)+
  show "unat (lastUpdateTime (poll iw b (now0 + of_nat d) r) - now0) < unat (debounceTime b)"
    using assms(4) by (simp add: u)
qed

lemma poll_debounce_end:
  assumes "debouncing b" and "edgeTime b = now0"
    and "unat (lastUpdateTime b - now0) < unat (debounceTime b)"
    and "unat (debounceTime b) \<le> d" and "d < 2 ^ 32"
  shows "\<not> shortPressDetected (poll iw b (now0 + of_nat d) r)"
    and "\<not> releaseDetected (poll iw b (now0 + of_nat d) r)"
    and "\<not> debouncing (poll iw b (now0 + of_nat d) r)"
    and "rawState (poll iw b (now0 + of_nat d) r) = rawState b"
proof -
  have u: "unat (of_nat d :: u32) = d" by (rule unat_of_nat_32 [OF assms(5)])
  have ns: "now0 + of_nat d \<noteq> lastUpdateTime b"
  proof
    assume e: "now0 + of_nat d = lastUpdateTime b"
    have "lastUpdateTime b - now0 = of_nat d" unfolding e [symmetric] by simp
    then show False using assms(3,4) u by simp
  qed
  have de: "ucast (debounceTime b) \<le> (of_nat d :: u32)"
    unfolding ucast16_le_iff u using assms(4) by simp
  show "\<not> shortPressDetected (poll iw b (now0 + of_nat d) r)"
    "\<not> releaseDetected (poll iw b (now0 + of_nat d) r)"
    "\<not> debouncing (poll iw b (now0 + of_nat d) r)"
    "rawState (poll iw b (now0 + of_nat d) r) = rawState b"
    using assms(1,2) de
    by (simp_all add: poll_run [OF ns] state_machine_def hold_block_def)
qed

lemma poll_edge:
  assumes "now \<noteq> lastUpdateTime b" and "\<not> debouncing b" and "r \<noteq> rawState b"
  shows "shortPressDetected (poll iw b now r) = r" and "releaseDetected (poll iw b now r) = (\<not> r)"
    and "edgeTime (poll iw b now r) = now" and "rawState (poll iw b now r) = r"
    and "debouncing (poll iw b now r) = (debounceTime b \<noteq> 0)"
    and "debounceTime (poll iw b now r) = debounceTime b"
  using assms
  by (auto simp add: poll_run state_machine_def hold_block_def ucast16_eq_0_iff)

lemma trace_in_debounce:
  assumes "debouncing b" and "edgeTime b = now0"
    and "unat (lastUpdateTime b - now0) < unat (debounceTime b)"
    and "\<forall>p\<in>set early. fst p < unat (debounceTime b)"
  shows "(\<forall>s\<in>set (trace iw b (map (\<lambda>p. (now0 + of_nat (fst p), snd p)) early)).
            \<not> shortPressDetected s \<and> \<not> releaseDetected s \<and> debouncing s)
       \<and> debouncing (last (b # trace iw b (map (\<lambda>p. (now0 + of_nat (fst p), snd p)) early)))
       \<and> edgeTime (last (b # trace iw b (map (\<lambda>p. (now0 + of_nat (fst p), snd p)) early))) = now0
       \<and> rawState (last (b # trace iw b (map (\<lambda>p. (now0 + of_nat (fst p), snd p)) early))) = rawState b
       \<and> debounceTime (last (b # trace iw b (map (\<lambda>p. (now0 + of_nat (fst p), snd p)) early))) = debounceTime b
       \<and> unat (lastUpdateTime (last (b # trace iw b (map (\<lambda>p. (now0 + of_nat (fst p), snd p)) early))) - now0)
           < unat (debounceTime b)"
  using assms
proof (induction early arbitrary: b)
  case Nil
  then show ?case by simp
next
  case (Cons p early)
  let ?b1 = "poll iw b (now0 + of_nat (fst p)) (snd p)"
  have d: "fst p < unat (debounceTime b)" using Cons.prems(4) by simp
  note st = poll_in_debounce [OF Cons.prems(1,2,3) d, where r = "snd p" and iw = iw]
  have r: "\<forall>q\<in>set early. fst q < unat (debounceTime ?b1)"
    using Cons.prems(4) st(6) by simp
  have l: "unat (lastUpdateTime ?b1 - now0) < unat (debounceTime ?b1)"
    using st(7) st(6) by simp
  note IH = Cons.IH [OF st(3) st(4) l r]
  show ?case using IH st by (simp add: Let_def)
qed

lemma poll_zero_window:
  assumes "\<not> debouncing b" and "debounceTime b = 0"
  shows "\<not> debouncing (poll iw b now r)"
  using assms
  by (cases "now = lastUpdateTime b")
     (auto simp add: poll_skip poll_run state_machine_def hold_block_def ucast16_eq_0_iff)

subsection \<open>Press, hold, release\<close>

lemma updates_trace:
  "\<forall>hw\<in>set hws. intWidth hw = iw \<Longrightarrow> updates g b hws = trace iw b (readings g b hws)"
  by (induction hws arbitrary: g b) (simp_all add: update_button)

lemma idle_new: "idle (OptaButton_new m p l d i lp rs rm a)"
  by (simp add: idle_def consistent_def OptaButton_new_def)

lemma trace_append:
  "trace iw b (xs @ ys) = trace iw b xs @ trace iw (last (b # trace iw b xs)) ys"
  by (induction xs arbitrary: b) (simp_all add: Let_def)

lemma poll_press_from_idle:
  assumes "idle b" and "t \<noteq> lastUpdateTime b"
  shows "shortPressDetected (poll iw b t True)" and "\<not> releaseDetected (poll iw b t True)"
    and "\<not> longReleaseDetected (poll iw b t True)"
    and "held t (poll iw b t True)"
    and "longPressDetected (poll iw b t True) = longPressReported (poll iw b t True)"
    and "debounceTime b = 0 \<and> longPressThreshold b = 0 \<Longrightarrow> longPressReported (poll iw b t True)"
    and "debounceTime (poll iw b t True) = debounceTime b"
    and "longPressThreshold (poll iw b t True) = longPressThreshold b"
  using assms
  by (auto simp add: idle_def held_def consistent_def poll_run state_machine_def hold_block_def
      ucast16_eq_0_iff)

lemma poll_hold:
  assumes "held t0 b" and "t \<noteq> lastUpdateTime b"
  shows "\<not> shortPressDetected (poll iw b t True)" and "\<not> releaseDetected (poll iw b t True)"
    and "\<not> longReleaseDetected (poll iw b t True)"
    and "held t0 (poll iw b t True)"
    and "longPressDetected (poll iw b t True)
           = (\<not> longPressReported b \<and> longPressReported (poll iw b t True))"
    and "longPressReported b \<Longrightarrow> longPressReported (poll iw b t True)"
    and "ucast (debounceTime b) \<le> t - t0 \<and> ucast (longPressThreshold b) \<le> t - t0
           \<Longrightarrow> longPressReported (poll iw b t True)"
    and "debounceTime (poll iw b t True) = debounceTime b"
    and "longPressThreshold (poll iw b t True) = longPressThreshold b"
  using assms
  by (auto simp add: held_def consistent_def poll_run state_machine_def hold_block_def)

lemma trace_hold:
  assumes "held t0 b" and "distinct_adj (lastUpdateTime b # ts)"
  shows "(\<forall>s\<in>set (trace iw b (map (\<lambda>t. (t, True)) ts)).
           \<not> shortPressDetected s \<and> \<not> releaseDetected s \<and> \<not> longReleaseDetected s)
    \<and> length (filter longPressDetected (trace iw b (map (\<lambda>t. (t, True)) ts)))
        = (if longPressReported (last (b # trace iw b (map (\<lambda>t. (t, True)) ts)))
              \<and> \<not> longPressReported b then 1 else 0)
    \<and> held t0 (last (b # trace iw b (map (\<lambda>t. (t, True)) ts)))
    \<and> (longPressReported b \<longrightarrow> longPressReported (last (b # trace iw b (map (\<lambda>t. (t, True)) ts))))
    \<and> ((\<exists>t\<in>set ts. ucast (debounceTime b) \<le> t - t0 \<and> ucast (longPressThreshold b) \<le> t - t0)
         \<longrightarrow> longPressReported (last (b # trace iw b (map (\<lambda>t. (t, True)) ts))))
    \<and> lastUpdateTime (last (b # trace iw b (map (\<lambda>t. (t, True)) ts))) = last (lastUpdateTime b # ts)
    \<and> debounceTime (last (b # trace iw b (map (\<lambda>t. (t, True)) ts))) = debounceTime b
    \<and> longPressThreshold (last (b # trace iw b (map (\<lambda>t. (t, True)) ts))) = longPressThreshold b"
  using assms
proof (induction ts arbitrary: b)
  case Nil
  then show ?case by simp
next
  case (Cons t ts)
  let ?b1 = "poll iw b t True"
  have ns: "t \<noteq> lastUpdateTime b" using Cons.prems(2) by auto
  note st = poll_hold [OF Cons.prems(1) ns]
  have da: "distinct_adj (lastUpdateTime ?b1 # ts)" using Cons.prems(2) by simp
  note IH = Cons.IH [OF st(4) da]
  show ?case
    using IH st by (auto simp add: Let_def)
qed

lemma poll_release_edge:
  assumes "held t0 b" and "longPressReported b" and "t \<noteq> lastUpdateTime b"
  shows "releaseDetected (poll iw b t False)" and "longReleaseDetected (poll iw b t False)"
    and "\<not> shortPressDetected (poll iw b t False)" and "\<not> longPressDetected (poll iw b t False)"
    and "consistent (poll iw b t False)" and "\<not> rawState (poll iw b t False)"
    and "edgeTime (poll iw b t False) = t"
    and "debouncing (poll iw b t False) = (debounceTime b \<noteq> 0)"
    and "debounceTime (poll iw b t False) = debounceTime b"
  using assms
  by (auto simp add: held_def consistent_def poll_run state_machine_def hold_block_def
      ucast16_eq_0_iff)

lemma poll_released:
  assumes "consistent b" and "\<not> rawState b"
  shows "\<not> shortPressDetected (poll iw b t False)" and "\<not> releaseDetected (poll iw b t False)"
    and "\<not> longReleaseDetected (poll iw b t False)" and "\<not> longPressDetected (poll iw b t False)"
    and "consistent (poll iw b t False)" and "\<not> rawState (poll iw b t False)"
    and "edgeTime (poll iw b t False) = edgeTime b"
    and "debounceTime (poll iw b t False) = debounceTime b"
    and "\<not> debouncing b \<Longrightarrow> \<not> debouncing (poll iw b t False)"
    and "t \<noteq> lastUpdateTime b \<and> ucast (debounceTime b) \<le> t - edgeTime b
           \<Longrightarrow> \<not> debouncing (poll iw b t False)"
  using assms
  by (cases "t = lastUpdateTime b";
      auto simp add: consistent_def poll_skip poll_run state_machine_def hold_block_def)+

lemma trace_released:
  assumes "consistent b" and "\<not> rawState b" and "distinct_adj (lastUpdateTime b # ts)"
  shows "(\<forall>s\<in>set (trace iw b (map (\<lambda>t. (t, False)) ts)).
           \<not> shortPressDetected s \<and> \<not> releaseDetected s \<and> \<not> longReleaseDetected s
           \<and> \<not> longPressDetected s)
    \<and> consistent (last (b # trace iw b (map (\<lambda>t. (t, False)) ts)))
    \<and> \<not> rawState (last (b # trace iw b (map (\<lambda>t. (t, False)) ts)))
    \<and> (\<not> debouncing b \<or> (\<exists>t\<in>set ts. ucast (debounceTime b) \<le> t - edgeTime b)
         \<longrightarrow> \<not> debouncing (last (b # trace iw b (map (\<lambda>t. (t, False)) ts))))
    \<and> lastUpdateTime (last (b # trace iw b (map (\<lambda>t. (t, False)) ts))) = last (lastUpdateTime b # ts)
    \<and> debounceTime (last (b # trace iw b (map (\<lambda>t. (t, False)) ts))) = debounceTime b
    \<and> longPressThreshold (last (b # trace iw b (map (\<lambda>t. (t, False)) ts))) = longPressThreshold b"
  using assms
proof (induction ts arbitrary: b)
  case Nil
  then show ?case by simp
next
  case (Cons t ts)
  let ?b1 = "poll iw b t False"
  have ns: "t \<noteq> lastUpdateTime b" using Cons.prems(3) by auto
  note st = poll_released [OF Cons.prems(1,2), where t = t and iw = iw]
  have lp: "longPressThreshold ?b1 = longPressThreshold b"
    by (simp add: poll_run [OF ns] state_machine_def hold_block_def)
  have da: "distinct_adj (lastUpdateTime ?b1 # ts)" using Cons.prems(3) by simp
  note IH = Cons.IH [OF st(5) st(6) da]
  show ?case
    using IH st ns lp by (auto simp add: Let_def)
qed

lemma count_none: "\<forall>s\<in>set xs. \<not> P s \<Longrightarrow> length (filter P xs) = 0"
  by (induction xs) auto

lemma cycle:
  assumes "idle b" and "distinct_adj (lastUpdateTime b # (h # hs) @ (r # rs))"
    and "long_hold b (h # hs)"
  shows "cycle_events (trace iw b (press_hold_release (h # hs) (r # rs)))"
    and "consistent (last (trace iw b (press_hold_release (h # hs) (r # rs))))"
    and "\<not> rawState (last (trace iw b (press_hold_release (h # hs) (r # rs))))"
    and "(\<exists>t\<in>set (r # rs). ucast (debounceTime b) \<le> t - r)
          \<Longrightarrow> \<not> debouncing (last (trace iw b (press_hold_release (h # hs) (r # rs))))"
    and "lastUpdateTime (last (trace iw b (press_hold_release (h # hs) (r # rs)))) = last (r # rs)"
    and "debounceTime (last (trace iw b (press_hold_release (h # hs) (r # rs)))) = debounceTime b"
    and "longPressThreshold (last (trace iw b (press_hold_release (h # hs) (r # rs))))
           = longPressThreshold b"
proof -
  define b1 where "b1 = poll iw b h True"
  define trH where "trH = trace iw b1 (map (\<lambda>t. (t, True)) hs)"
  define bH where "bH = last (b1 # trH)"
  define b2 where "b2 = poll iw bH r False"
  define trR where "trR = trace iw b2 (map (\<lambda>t. (t, False)) rs)"
  have tr: "trace iw b (press_hold_release (h # hs) (r # rs)) = b1 # trH @ b2 # trR"
    by (simp add: press_hold_release_def trace_append b1_def trH_def bH_def b2_def trR_def)
  have da: "h \<noteq> lastUpdateTime b" "distinct_adj (h # hs)" "distinct_adj (r # rs)"
    "last (h # hs) \<noteq> r"
    using assms(2) by (auto simp add: distinct_adj_append_iff distinct_adj_Cons)
  note p1 = poll_press_from_idle [OF assms(1) da(1), where iw = iw, folded b1_def]
  have lu1: "lastUpdateTime b1 = h" by (simp add: b1_def)
  have da1: "distinct_adj (lastUpdateTime b1 # hs)" using da(2) lu1 by simp
  note pH = trace_hold [OF p1(4) da1, where iw = iw, folded trH_def, folded bH_def]
  have repH: "longPressReported bH"
  proof -
    obtain t where t: "t \<in> set (h # hs)" "ucast (debounceTime b) \<le> t - h"
      "ucast (longPressThreshold b) \<le> t - h"
      using assms(3) unfolding long_hold_def list.sel(1) by blast
    show ?thesis
    proof (cases "t \<in> set hs")
      case True
      then show ?thesis using pH t(2,3) p1(7,8) by auto
    next
      case False
      then have "t = h" using t(1) by simp
      then have "debounceTime b = 0 \<and> longPressThreshold b = 0"
        using t(2,3) by (simp add: ucast16_eq_0_iff)
      then have "longPressReported b1" by (rule p1(6))
      then show ?thesis using pH by simp
    qed
  qed
  have heldH: "held h bH" using pH by simp
  have luH: "lastUpdateTime bH = last (h # hs)" using pH lu1 by simp
  have nsr: "r \<noteq> lastUpdateTime bH" using da(4) luH by simp
  note p2 = poll_release_edge [OF heldH repH nsr, where iw = iw, folded b2_def]
  have lu2: "lastUpdateTime b2 = r" by (simp add: b2_def)
  have da2: "distinct_adj (lastUpdateTime b2 # rs)" using da(3) lu2 by simp
  note pR = trace_released [OF p2(5) p2(6) da2, where iw = iw, folded trR_def]
  have cfgH: "debounceTime bH = debounceTime b" "longPressThreshold bH = longPressThreshold b"
    using pH p1(7,8) by simp_all
  have lp2: "longPressThreshold b2 = longPressThreshold bH"
    by (simp add: b2_def poll_run [OF nsr] state_machine_def hold_block_def)
  have nH: "length (filter shortPressDetected trH) = 0" "length (filter releaseDetected trH) = 0"
    "length (filter longReleaseDetected trH) = 0"
    using pH by (simp_all add: count_none)
  have nR: "length (filter shortPressDetected trR) = 0" "length (filter releaseDetected trR) = 0"
    "length (filter longReleaseDetected trR) = 0" "length (filter longPressDetected trR) = 0"
    using pR by (simp_all add: count_none)
  have lpH: "length (filter longPressDetected trH) = (if longPressDetected b1 then 0 else 1)"
    using pH repH p1(5) by (cases "longPressReported b1") simp_all
  have sames: "list_all (\<lambda>s. releaseDetected s = longReleaseDetected s) (b1 # trH @ b2 # trR)"
  proof -
    have "\<forall>s\<in>set trH. releaseDetected s = longReleaseDetected s" using pH by blast
    moreover have "\<forall>s\<in>set trR. releaseDetected s = longReleaseDetected s" using pR by blast
    ultimately show ?thesis using p1(2,3) p2(1,2) by (auto simp add: list_all_iff)
  qed
  show "cycle_events (trace iw b (press_hold_release (h # hs) (r # rs)))"
    unfolding tr cycle_events_def isShortPressed_def [abs_def] isLongPressed_def [abs_def]
      isReleased_def [abs_def] isLongReleased_def [abs_def]
    using p1(1,2,3) p2(1,2,3,4) nH nR lpH sames by simp
  have lst: "last (trace iw b (press_hold_release (h # hs) (r # rs))) = last (b2 # trR)"
    unfolding tr by simp
  show "consistent (last (trace iw b (press_hold_release (h # hs) (r # rs))))"
    unfolding lst using pR by simp
  show "\<not> rawState (last (trace iw b (press_hold_release (h # hs) (r # rs))))"
    unfolding lst using pR by simp
  show "lastUpdateTime (last (trace iw b (press_hold_release (h # hs) (r # rs)))) = last (r # rs)"
    unfolding lst using pR lu2 by simp
  show "debounceTime (last (trace iw b (press_hold_release (h # hs) (r # rs)))) = debounceTime b"
    unfolding lst using pR p2(9) cfgH by simp
  show "longPressThreshold (last (trace iw b (press_hold_release (h # hs) (r # rs))))
           = longPressThreshold b"
    unfolding lst using pR lp2 cfgH by simp
  show "\<not> debouncing (last (trace iw b (press_hold_release (h # hs) (r # rs))))"
    if ex: "\<exists>t\<in>set (r # rs). ucast (debounceTime b) \<le> t - r"
  proof -
    obtain t where t: "t \<in> set (r # rs)" "ucast (debounceTime b) \<le> t - r" using ex by blast
    show ?thesis
    proof (cases "t \<in> set rs")
      case True
      then have "\<exists>t\<in>set rs. ucast (debounceTime b2) \<le> t - edgeTime b2"
        using t(2) p2(7,9) cfgH by auto
      then show ?thesis unfolding lst using pR by simp
    next
      case False
      then have "t = r" using t(1) by simp
      then have "debounceTime b = 0" using t(2) by (simp add: ucast16_eq_0_iff)
      then have "\<not> debouncing b2" using p2(8) cfgH by simp
      then show ?thesis unfolding lst using pR by simp
    qed
  qed
qed

lemma long_hold_config:
  "debounceTime b' = debounceTime b \<Longrightarrow> longPressThreshold b' = longPressThreshold b
   \<Longrightarrow> long_hold b' hs = long_hold b hs"
  by (simp add: long_hold_def)

subsection \<open>Configuration and the floor of the repeat interval\<close>

lemma poll_config:
  "repeatIntervalMin (poll iw b now r) = repeatIntervalMin b"
  "repeatIntervalStart (poll iw b now r) = repeatIntervalStart b"
  "acceleration (poll iw b now r) = acceleration b"
  "debounceTime (poll iw b now r) = debounceTime b"
  "longPressThreshold (poll iw b now r) = longPressThreshold b"
  by (cases "now = lastUpdateTime b";
      simp add: poll_skip poll_run state_machine_def hold_block_def)+

lemma interval_floor_kept:
  assumes "repeatIntervalMin b \<le> repeatIntervalStart b"
    and "repeatIntervalMin b \<le> currentRepeatInterval b"
    and "iw = Int32 \<or> uint (repeatIntervalStart b) < 32768 \<and> uint (currentRepeatInterval b) < 32768"
  shows "repeatIntervalMin (poll iw b now r) \<le> currentRepeatInterval (poll iw b now r)"
    and "iw = Int32 \<or> uint (currentRepeatInterval (poll iw b now r)) < 32768"
proof -
  have a: "repeatIntervalMin b \<le> accel_interval iw c (acceleration b) (repeatIntervalMin b)
         \<and> (iw = Int32 \<or> uint (accel_interval iw c (acceleration b) (repeatIntervalMin b)) < 32768)"
    if "repeatIntervalMin b \<le> c" and "iw = Int32 \<or> uint c < 32768" for c
  proof -
    have e: "accel_interval iw c (acceleration b) (repeatIntervalMin b)
               = accel_interval_int32 c (acceleration b) (repeatIntervalMin b)"
      by (rule accel_interval_exact [OF that(2) that(1)])
    have "uint (accel_interval_int32 c (acceleration b) (repeatIntervalMin b)) \<le> uint c"
      using accel_interval_int32_bounds(2) [OF that(1)] by (simp add: word_le_def)
    then show ?thesis
      using that(2) accel_interval_int32_bounds(1) [OF that(1)] unfolding e by auto
  qed
  have ac: "repeatIntervalMin b \<le> accel_interval iw (currentRepeatInterval b) (acceleration b) (repeatIntervalMin b)
         \<and> (iw = Int32 \<or> uint (accel_interval iw (currentRepeatInterval b) (acceleration b) (repeatIntervalMin b)) < 32768)"
    using a [of "currentRepeatInterval b"] assms(2,3) by blast
  have as: "repeatIntervalMin b \<le> accel_interval iw (repeatIntervalStart b) (acceleration b) (repeatIntervalMin b)
         \<and> (iw = Int32 \<or> uint (accel_interval iw (repeatIntervalStart b) (acceleration b) (repeatIntervalMin b)) < 32768)"
    using a [of "repeatIntervalStart b"] assms(1,3) by blast
  show "repeatIntervalMin (poll iw b now r) \<le> currentRepeatInterval (poll iw b now r)"
    using assms(1,2) ac as
    by (cases "now = lastUpdateTime b")
       (simp_all add: poll_skip poll_run state_machine_def hold_block_def)
  show "iw = Int32 \<or> uint (currentRepeatInterval (poll iw b now r)) < 32768"
    using assms(3) ac as
    by (cases "now = lastUpdateTime b")
       (auto simp add: poll_skip poll_run state_machine_def hold_block_def)
qed

lemma interval_floor_new:
  "rm \<le> rs \<Longrightarrow> repeatIntervalMin (OptaButton_new m p l d i lp rs rm a)
       \<le> currentRepeatInterval (OptaButton_new m p l d i lp rs rm a)"
  by (simp add: OptaButton_new_def)

subsection \<open>The acceleration step where \<open>int\<close> holds the interval\<close>

text \<open>
  Take a call of \<open>update()\<close> made while long press is active and debounce is over, in
  a state the main loop can reach, not skipped by the rate limit and with the button still
  read as pressed, the interval not below the configured minimum (\<open>interval_floor_new\<close>,
  \<open>interval_floor_kept\<close>), and either an \<open>int\<close> of 32 bits or an interval below 32768 ms,
  which an \<open>int\<close> of 16 bits holds too. When at least 1000 ms have passed since
  \<open>lastAccelUpdate\<close>, the new interval is the old one less the acceleration step, but not
  less than the minimum: a step larger than the interval gives the minimum. The branch is
  taken, and \<open>lastAccelUpdate\<close> set to the clock value, exactly when the interval was still
  above the minimum. After such a step no call made less than 1000 ms later takes the branch
  again or changes the interval; lemma \<open>accel_spacing\<close> shows for every later call of a run
  that takes the branch that it is at least 1000 ms after \<open>lastAccelUpdate\<close>.
\<close>

theorem update_accelerate:
  assumes "\<not> millis hw - lastUpdateTime b < ucast LOOP_INTERVAL_MS"
    and "consistent b" and "\<not> debouncing b" and "longPressActive b"
    and "reading g hw b"
    and "repeatIntervalMin b \<le> currentRepeatInterval b"
    and "1000 \<le> millis hw - lastAccelUpdate b"
    and "intWidth hw = Int32 \<or> uint (currentRepeatInterval b) < 32768"
  shows "uint (currentRepeatInterval (snd (update g hw b)))
           = max (uint (currentRepeatInterval b) - uint (acceleration b)) (uint (repeatIntervalMin b))
    \<and> repeatIntervalMin b \<le> currentRepeatInterval (snd (update g hw b))
    \<and> currentRepeatInterval (snd (update g hw b)) \<le> currentRepeatInterval b
    \<and> lastAccelUpdate (snd (update g hw b))
         = (if repeatIntervalMin b < currentRepeatInterval b then millis hw
            else lastAccelUpdate b)
    \<and> accel_step b (millis hw) (reading g hw b)
         = (repeatIntervalMin b < currentRepeatInterval b)
    \<and> (\<forall>g' hw'. repeatIntervalMin b < currentRepeatInterval b
           \<and> millis hw' - millis hw < 1000
         \<longrightarrow> \<not> accel_step (snd (update g hw b)) (millis hw') (reading g' hw' (snd (update g hw b)))
           \<and> currentRepeatInterval (snd (update g' hw' (snd (update g hw b))))
               = currentRepeatInterval (snd (update g hw b)))"
proof -
  have ns: "millis hw \<noteq> lastUpdateTime b" using assms(1) by (simp add: too_soon_iff)
  have p: "snd (update g hw b) = poll (intWidth hw) b (millis hw) True"
    using assms(5) by (simp add: update_button)
  note acc = poll_hold_accel [OF ns assms(2,3,4,7)]
  have ex: "accel_interval (intWidth hw) (currentRepeatInterval b) (acceleration b) (repeatIntervalMin b)
             = accel_interval_int32 (currentRepeatInterval b) (acceleration b) (repeatIntervalMin b)"
    by (rule accel_interval_exact [OF assms(8) assms(6)])
  have u: "uint (accel_interval (intWidth hw) (currentRepeatInterval b) (acceleration b) (repeatIntervalMin b))
             = max (uint (currentRepeatInterval b) - uint (acceleration b)) (uint (repeatIntervalMin b))"
    unfolding ex by (rule uint_accel_interval_int32 [OF assms(6)])
  note bd = accel_interval_int32_bounds [OF assms(6), where acc = "acceleration b", folded ex]
  have v: "uint (currentRepeatInterval (poll (intWidth hw) b (millis hw) True))
           = max (uint (currentRepeatInterval b) - uint (acceleration b)) (uint (repeatIntervalMin b))"
  proof (cases "repeatIntervalMin b < currentRepeatInterval b")
    case True
    then show ?thesis by (simp add: acc(1) u)
  next
    case False
    then have "currentRepeatInterval b = repeatIntervalMin b" using assms(6) by simp
    then show ?thesis using False by (simp add: acc(1))
  qed
  have st: "accel_step b (millis hw) True = (repeatIntervalMin b < currentRepeatInterval b)"
    using ns assms(2,3,4,7)
    by (auto simp add: accel_step_def Let_def consistent_def)
  have raw: "rawState (poll (intWidth hw) b (millis hw) True)"
    using ns assms(2,3,4)
    by (auto simp add: poll_run state_machine_def hold_block_def consistent_def)
  have nxt: "\<not> accel_step (poll (intWidth hw) b (millis hw) True) now' r'
           \<and> currentRepeatInterval (poll iw' (poll (intWidth hw) b (millis hw) True) now' r')
               = currentRepeatInterval (poll (intWidth hw) b (millis hw) True)"
    if "repeatIntervalMin b < currentRepeatInterval b" "now' - millis hw < 1000" for now' r' iw'
  proof -
    have la: "lastAccelUpdate (poll (intWidth hw) b (millis hw) True) = millis hw"
      using that(1) by (simp add: acc(2))
    have "\<not> accel_step (poll (intWidth hw) b (millis hw) True) now' r'"
      using accel_step_elapsed [of "poll (intWidth hw) b (millis hw) True" now' r'] that(2) la by auto
    moreover have "currentRepeatInterval (poll iw' (poll (intWidth hw) b (millis hw) True) now' r')
               = currentRepeatInterval (poll (intWidth hw) b (millis hw) True)"
      using poll_no_accel [OF la that(2), where iw = iw' and pressed = r'] raw by simp
    ultimately show ?thesis by simp
  qed
  show ?thesis
    unfolding p update_button
    using v bd acc st nxt assms(5,6) by auto
qed

theorem update_accelerate_witness:
  "\<not> millis (board_at 1800 False []) - lastUpdateTime held_long < ucast LOOP_INTERVAL_MS
   \<and> consistent held_long \<and> \<not> debouncing held_long \<and> longPressActive held_long
   \<and> reading (Shared_init 0) (board_at 1800 False []) held_long
   \<and> repeatIntervalMin held_long \<le> currentRepeatInterval held_long
   \<and> 1000 \<le> millis (board_at 1800 False []) - lastAccelUpdate held_long
   \<and> intWidth (board_at 1800 False []) = Int32
   \<and> currentRepeatInterval (snd (update (Shared_init 0) (board_at 1800 False []) held_long)) = 8
   \<and> lastAccelUpdate (snd (update (Shared_init 0) (board_at 1800 False []) held_long)) = 1800"
proof -
  have h1: "\<not> millis (board_at 1800 False []) - lastUpdateTime held_long < ucast LOOP_INTERVAL_MS"
    by (simp add: LOOP_INTERVAL_MS_def)
  have h2: "consistent held_long" by (simp add: consistent_def)
  have h3: "\<not> debouncing held_long" by simp
  have h4: "longPressActive held_long" by simp
  have h5: "reading (Shared_init 0) (board_at 1800 False []) held_long"
    by (rule held_long_reading)
  have h6: "repeatIntervalMin held_long \<le> currentRepeatInterval held_long" by simp
  have h7: "1000 \<le> millis (board_at 1800 False []) - lastAccelUpdate held_long" by simp
  have h8': "intWidth (board_at 1800 False []) = Int32" by (simp add: board_at_def)
  then have h8: "intWidth (board_at 1800 False []) = Int32
      \<or> uint (currentRepeatInterval held_long) < 32768" by simp
  have "uint (currentRepeatInterval (snd (update (Shared_init 0) (board_at 1800 False []) held_long))) = 8"
    and l: "lastAccelUpdate (snd (update (Shared_init 0) (board_at 1800 False []) held_long)) = 1800"
    using update_accelerate [OF h1 h2 h3 h4 h5 h6 h7 h8] by simp_all
  then have "currentRepeatInterval (snd (update (Shared_init 0) (board_at 1800 False []) held_long)) = 8"
    by (metis uint_numeral word_uint_eq_iff numeral_eq_iff mod_pos_pos_trivial word_of_int_uint word_of_int_numeral)
  then show ?thesis using h1 h2 h3 h4 h5 h6 h7 h8' l by simp
qed

subsection \<open>A repeat interval that a 16-bit \<open>int\<close> does not hold\<close>

lemma poll_wiring:
  "inputMode (poll iw b now r) = inputMode b"
  "inputID (poll iw b now r) = inputID b"
  "invertedLogic (poll iw b now r) = invertedLogic b"
  by (cases "now = lastUpdateTime b";
      simp add: poll_skip poll_run state_machine_def hold_block_def)+

lemma reading_gpio:
  "inputMode b = GPIO \<Longrightarrow>
     reading g hw b = (if invertedLogic b then digitalRead hw (inputID b)
                       else \<not> digitalRead hw (inputID b))"
  by (simp add: reading_def readInput_def)

lemma slow_button_sel [simp]:
  "inputMode slow_button = GPIO" "invertedLogic slow_button = False"
  "lastUpdateTime slow_button = 0" "rawState slow_button = False"
  "debouncing slow_button = False" "currentPressed slow_button = False"
  "longPressActive slow_button = False" "longPressReported slow_button = False"
  "debounceTime slow_button = 20" "longPressThreshold slow_button = 800"
  "repeatIntervalStart slow_button = 32800" "repeatIntervalMin slow_button = 32768"
  "currentRepeatInterval slow_button = 32800" "acceleration slow_button = 100"
  "edgeTime slow_button = 0" "lastRepeatTime slow_button = 0" "lastAccelUpdate slow_button = 0"
  by (simp_all add: slow_button_def OptaButton_new_def)

lemma avr_board_at_sel [simp]:
  "millis (avr_board_at t l) = t" "intWidth (avr_board_at t l) = Int16"
  "digitalRead (avr_board_at t l) pin = l"
  by (simp_all add: avr_board_at_def)

text \<open>The states of the slow button held down and polled at clock values 5, 805 and 1805.\<close>

lemma slow_press:
  "rawState (poll iw slow_button 5 True)" "currentPressed (poll iw slow_button 5 True)"
  "debouncing (poll iw slow_button 5 True)" "edgeTime (poll iw slow_button 5 True) = 5"
  "\<not> longPressReported (poll iw slow_button 5 True)"
  "\<not> longPressActive (poll iw slow_button 5 True)"
  "currentRepeatInterval (poll iw slow_button 5 True) = 32800"
  by (simp_all add: poll_run state_machine_def hold_block_def)

lemma slow_long_press:
  "rawState (poll iw (poll iw slow_button 5 True) 805 True)"
  "currentPressed (poll iw (poll iw slow_button 5 True) 805 True)"
  "\<not> debouncing (poll iw (poll iw slow_button 5 True) 805 True)"
  "longPressReported (poll iw (poll iw slow_button 5 True) 805 True)"
  "longPressActive (poll iw (poll iw slow_button 5 True) 805 True)"
  "lastAccelUpdate (poll iw (poll iw slow_button 5 True) 805 True) = 805"
  "currentRepeatInterval (poll iw (poll iw slow_button 5 True) 805 True) = 32800"
  using slow_press [of iw]
  by (simp_all add: poll_run [of 805] state_machine_def hold_block_def poll_config)

lemma slow_accel:
  "currentRepeatInterval (poll iw (poll iw (poll iw slow_button 5 True) 805 True) 1805 True)
     = accel_interval iw 32800 100 32768"
proof -
  let ?b = "poll iw (poll iw slow_button 5 True) 805 True"
  have c: "consistent ?b"
    by (simp add: consistent_poll idle_new [unfolded idle_def] slow_button_def)
  have n: "(1805::u32) \<noteq> lastUpdateTime ?b" by simp
  have e: "(1000::u32) \<le> 1805 - lastAccelUpdate ?b" by (simp add: slow_long_press)
  show ?thesis
    using poll_hold_accel(1) [OF n c slow_long_press(3) slow_long_press(5) e]
    by (simp add: slow_long_press poll_config)
qed
subsection \<open>A call after the clock has wrapped\<close>

lemma ucast16_of_nat: "(ucast (x::u16) :: u32) = of_nat (unat x)"
  by simp

lemma le_1000_iff: "((1000::u32) \<le> w) = (1000 \<le> unat w)"
  by (simp add: word_le_nat_alt)

lemma near_wrap_reading: "reading g (board_at t False es) near_wrap"
  by (simp add: reading_def readInput_def board_at_def near_wrap_def OptaButton_default_def
      OptaButton_new_def)

section \<open>The claims\<close>

text \<open>
  C1, as stated: a call of \<open>update()\<close> made less than 1 ms after the previous call that was
  not skipped mutates no state of the button, and all five event accessors read false after
  it. The two halves do not fit together: the event flags are members of the button, they are
  cleared before the clock is looked at, and a flag that the previous call set is therefore
  changed by the skipped call. Below: a GPIO button with the default timing is pressed at
  clock value 5, so \<open>isShortPressed()\<close> is true; a second \<open>update()\<close> at the same clock
  value returns a button that differs from the one it was given.
\<close>

theorem update_too_soon_mutates_flags:
  "millis (board_at 5 False []) - lastUpdateTime pressed_at_5 < ucast LOOP_INTERVAL_MS
   \<and> isShortPressed pressed_at_5
   \<and> \<not> isShortPressed (snd (update (Shared_init 0) (board_at 5 False []) pressed_at_5))
   \<and> snd (update (Shared_init 0) (board_at 5 False []) pressed_at_5) \<noteq> pressed_at_5"
proof -
  have t: "lastUpdateTime pressed_at_5 = 5" by (simp add: pressed_at_5_eq)
  have m: "millis (board_at 5 False []) = 5" by (simp add: board_at_def)
  have s: "shortPressDetected pressed_at_5" by (rule pressed_at_5_short)
  have u: "snd (update (Shared_init 0) (board_at 5 False []) pressed_at_5) = clear_flags pressed_at_5"
    by (simp add: update_skip m t)
  have ne: "clear_flags pressed_at_5 \<noteq> pressed_at_5"
  proof
    assume e: "clear_flags pressed_at_5 = pressed_at_5"
    have "shortPressDetected (clear_flags pressed_at_5) = shortPressDetected pressed_at_5"
      by (rule arg_cong [OF e])
    then show False using s by simp
  qed
  show ?thesis using s ne by (simp add: u m t LOOP_INTERVAL_MS_def isShortPressed_def)
qed

text \<open>
  C1, amended: a call of \<open>update()\<close> made less than 1 ms after the previous call that was not
  skipped changes nothing but the five event flags, which it clears: every other member of
  the button and everything the buttons share is as before, all five accessors read false,
  and a further such call changes nothing more.
\<close>

theorem update_too_soon:
  assumes "millis hw - lastUpdateTime b < ucast LOOP_INTERVAL_MS"
  shows "update g hw b = (g, b\<lparr> shortPressDetected := False, releaseDetected := False,
            longPressDetected := False, longReleaseDetected := False, repeatTriggered := False \<rparr>)
       \<and> \<not> isShortPressed (snd (update g hw b)) \<and> \<not> isReleased (snd (update g hw b))
       \<and> \<not> isLongPressed (snd (update g hw b)) \<and> \<not> isLongReleased (snd (update g hw b))
       \<and> \<not> isRepeating (snd (update g hw b))
       \<and> update g hw (snd (update g hw b)) = update g hw b"
  using assms
  by (simp add: update_def clear_flags_def Let_def isShortPressed_def isReleased_def
      isLongPressed_def isLongReleased_def isRepeating_def)

theorem update_too_soon_witness:
  "millis (board_at 5 False []) - lastUpdateTime pressed_at_5 < ucast LOOP_INTERVAL_MS
   \<and> update (Shared_init 0) (board_at 5 False []) pressed_at_5 =
       (Shared_init 0, pressed_at_5\<lparr> shortPressDetected := False, releaseDetected := False,
            longPressDetected := False, longReleaseDetected := False, repeatTriggered := False \<rparr>)
   \<and> \<not> isShortPressed (snd (update (Shared_init 0) (board_at 5 False []) pressed_at_5))"
proof -
  have h: "millis (board_at 5 False []) - lastUpdateTime pressed_at_5 < ucast LOOP_INTERVAL_MS"
    by (simp add: pressed_at_5_eq board_at_def LOOP_INTERVAL_MS_def)
  show ?thesis using h update_too_soon [OF h, of "Shared_init 0"] by blast
qed

text \<open>
  C2: the button is idle; the reading is pressed in the calls at clock values \<open>hs1\<close>,
  released in those at \<open>rs1\<close>, pressed again at \<open>hs2\<close> and released at \<open>rs2\<close>. No
  call is skipped (consecutive clock values differ); each hold is seen to last at least the
  debounce window and the long-press threshold, and the first release at least the debounce
  window. Then the calls of the first press-hold-release show exactly one short-press, exactly
  one long-press-enter, exactly one release and exactly one long-release, release and
  long-release in the same call, and so do the calls of the second. How many calls repeat is
  left open. (Lemma \<open>cycle\<close> is the statement for one press-hold-release.)
\<close>

theorem press_hold_release_twice:
  assumes "idle b"
    and "hs1 \<noteq> []" and "rs1 \<noteq> []" and "hs2 \<noteq> []" and "rs2 \<noteq> []"
    and "distinct_adj (lastUpdateTime b # hs1 @ rs1 @ hs2 @ rs2)"
    and "long_hold b hs1"
    and "\<exists>t\<in>set rs1. ucast (debounceTime b) \<le> t - hd rs1"
    and "long_hold b hs2"
  shows "trace iw b (press_hold_release hs1 rs1 @ press_hold_release hs2 rs2)
           = trace iw b (press_hold_release hs1 rs1)
             @ trace iw (last (trace iw b (press_hold_release hs1 rs1))) (press_hold_release hs2 rs2)
       \<and> cycle_events (trace iw b (press_hold_release hs1 rs1))
       \<and> cycle_events (trace iw (last (trace iw b (press_hold_release hs1 rs1)))
                         (press_hold_release hs2 rs2))"
proof -
  obtain h1 hs1' where hs1: "hs1 = h1 # hs1'" using assms(2) by (cases hs1) auto
  obtain r1 rs1' where rs1: "rs1 = r1 # rs1'" using assms(3) by (cases rs1) auto
  obtain h2 hs2' where hs2: "hs2 = h2 # hs2'" using assms(4) by (cases hs2) auto
  obtain r2 rs2' where rs2: "rs2 = r2 # rs2'" using assms(5) by (cases rs2) auto
  let ?tr1 = "trace iw b (press_hold_release hs1 rs1)"
  have ne: "?tr1 \<noteq> []" by (simp add: hs1 press_hold_release_def)
  have app: "trace iw b (press_hold_release hs1 rs1 @ press_hold_release hs2 rs2)
           = ?tr1 @ trace iw (last ?tr1) (press_hold_release hs2 rs2)"
    using ne by (simp add: trace_append)
  have da: "distinct_adj (lastUpdateTime b # hs1 @ rs1)" "distinct_adj (hs2 @ rs2)"
    "last rs1 \<noteq> hd hs2"
    using assms(6) distinct_adj_append_iff [of "lastUpdateTime b # hs1 @ rs1" "hs2 @ rs2"]
    by (simp_all add: hs1 rs1 hs2 rs2)
  have ex: "\<exists>t\<in>set (r1 # rs1'). ucast (debounceTime b) \<le> t - r1"
    using assms(8) by (simp add: rs1)
  note c1 = cycle [OF assms(1) da(1) [unfolded hs1 rs1] assms(7) [unfolded hs1], folded hs1 rs1]
  have nd: "\<not> debouncing (last ?tr1)" using c1(4) ex by (simp add: hs1 rs1)
  have idle1: "idle (last ?tr1)" using c1(2,3) nd by (simp add: idle_def)
  have lu: "lastUpdateTime (last ?tr1) = last rs1" using c1(5) by (simp add: rs1)
  have da2: "distinct_adj (lastUpdateTime (last ?tr1) # (h2 # hs2') @ (r2 # rs2'))"
    using da(2,3) unfolding lu hs2 rs2 by (simp add: distinct_adj_Cons)
  have lh2: "long_hold (last ?tr1) (h2 # hs2')"
    using assms(9) long_hold_config [OF c1(6) c1(7)] by (simp add: hs2)
  note c2 = cycle [OF idle1 da2 lh2, folded hs2 rs2]
  show ?thesis using app c1(1) c2(1) by simp
qed

theorem press_hold_release_twice_witness:
  "idle (OptaButton_default GPIO 2 ''up'')
   \<and> [10, 500, 900] \<noteq> ([]::u32 list) \<and> [1000, 1030] \<noteq> ([]::u32 list)
   \<and> [1100, 2000] \<noteq> ([]::u32 list) \<and> [2100] \<noteq> ([]::u32 list)
   \<and> distinct_adj (lastUpdateTime (OptaButton_default GPIO 2 ''up'')
        # [10, 500, 900] @ [1000, 1030] @ [1100, 2000] @ [2100])
   \<and> long_hold (OptaButton_default GPIO 2 ''up'') [10, 500, 900]
   \<and> ucast (debounceTime (OptaButton_default GPIO 2 ''up'')) \<le> (1030::u32) - hd [1000, 1030]
   \<and> long_hold (OptaButton_default GPIO 2 ''up'') [1100, 2000]
   \<and> cycle_events (trace Int32 (OptaButton_default GPIO 2 ''up'')
        (press_hold_release [10, 500, 900] [1000, 1030]))
   \<and> cycle_events (trace Int32 (last (trace Int32 (OptaButton_default GPIO 2 ''up'')
             (press_hold_release [10, 500, 900] [1000, 1030])))
        (press_hold_release [1100, 2000] [2100]))"
proof -
  let ?b = "OptaButton_default GPIO 2 ''up''"
  have h1: "idle ?b" by (simp add: idle_def consistent_def)
  have h2: "[10, 500, 900] \<noteq> ([]::u32 list)" "[1000, 1030] \<noteq> ([]::u32 list)"
    "[1100, 2000] \<noteq> ([]::u32 list)" "[2100] \<noteq> ([]::u32 list)" by simp_all
  have h6: "distinct_adj (lastUpdateTime ?b # [10, 500, 900] @ [1000, 1030] @ [1100, 2000] @ [2100])"
    by simp
  have h7: "long_hold ?b [10, 500, 900]" by (simp add: long_hold_def)
  have h8': "ucast (debounceTime ?b) \<le> (1030::u32) - hd [1000, 1030]" by simp
  then have h8: "\<exists>t\<in>set [1000, 1030::u32]. ucast (debounceTime ?b) \<le> t - hd [1000, 1030]" by simp
  have h9: "long_hold ?b [1100, 2000]" by (simp add: long_hold_def)
  show ?thesis
    using h1 h2 h6 h7 h8' h9 press_hold_release_twice [OF h1 h2 h6 h7 h8 h9] by simp
qed

text \<open>
  C3: a call of \<open>update()\<close> that is not skipped, in which the reading differs from
  \<open>rawState\<close> while \<open>debouncing\<close> is false, records the reading, stamps \<open>edgeTime\<close> with
  the clock value and sets \<open>debouncing\<close> (third conjunct: the state after the edge block; the
  exit test of the same call clears the flag again exactly when the debounce window is zero).
  A pressed reading gives short-press in this very call, the debounced pressed state, the
  repeat interval reset to its initial value and both repeat and acceleration timestamps equal
  to the clock value. A released reading gives release in this very call, long-release exactly
  when long press was active, and clears the pressed state, long-press-active and the
  long-press-reported guard.
\<close>

theorem update_edge:
  assumes "\<not> millis hw - lastUpdateTime b < ucast LOOP_INTERVAL_MS"
    and "reading g hw b \<noteq> rawState b" and "\<not> debouncing b"
  shows "rawState (snd (update g hw b)) = reading g hw b
    \<and> edgeTime (snd (update g hw b)) = millis hw
    \<and> debouncing (edge_block ((clear_flags b)\<lparr> lastUpdateTime := millis hw \<rparr>) (millis hw) (reading g hw b))
    \<and> debouncing (snd (update g hw b)) = (debounceTime b \<noteq> 0)
    \<and> (if reading g hw b
        then isShortPressed (snd (update g hw b)) \<and> \<not> isReleased (snd (update g hw b))
           \<and> currentPressed (snd (update g hw b))
           \<and> currentRepeatInterval (snd (update g hw b)) = repeatIntervalStart b
           \<and> lastRepeatTime (snd (update g hw b)) = millis hw
           \<and> lastAccelUpdate (snd (update g hw b)) = millis hw
        else isReleased (snd (update g hw b)) \<and> \<not> isShortPressed (snd (update g hw b))
           \<and> isLongReleased (snd (update g hw b)) = longPressActive b
           \<and> \<not> currentPressed (snd (update g hw b))
           \<and> \<not> longPressActive (snd (update g hw b))
           \<and> \<not> longPressReported (snd (update g hw b)))"
proof -
  have ns: "millis hw \<noteq> lastUpdateTime b" using assms(1) by (simp add: too_soon_iff)
  show ?thesis
    unfolding update_button poll_run [OF ns] state_machine_def
    using assms(2,3)
    by (simp add: hold_block_def isShortPressed_def isReleased_def isLongReleased_def
        ucast16_eq_0_iff)
qed

theorem update_edge_witness:
  "\<not> millis (board_at 5 False []) - lastUpdateTime (OptaButton_default GPIO 2 ''up'')
       < ucast LOOP_INTERVAL_MS
   \<and> reading (Shared_init 0) (board_at 5 False []) (OptaButton_default GPIO 2 ''up'')
       \<noteq> rawState (OptaButton_default GPIO 2 ''up'')
   \<and> \<not> debouncing (OptaButton_default GPIO 2 ''up'')
   \<and> isShortPressed pressed_at_5 \<and> rawState pressed_at_5 \<and> edgeTime pressed_at_5 = 5
   \<and> debouncing pressed_at_5 \<and> currentPressed pressed_at_5
   \<and> currentRepeatInterval pressed_at_5 = 100
   \<and> lastRepeatTime pressed_at_5 = 5 \<and> lastAccelUpdate pressed_at_5 = 5"
proof -
  have m: "millis (board_at 5 False []) = 5" by (simp add: board_at_def)
  have r: "reading (Shared_init 0) (board_at 5 False []) (OptaButton_default GPIO 2 ''up'')"
    by (simp add: reading_def readInput_def board_at_def OptaButton_default_def
        OptaButton_new_def)
  have h1: "\<not> millis (board_at 5 False []) - lastUpdateTime (OptaButton_default GPIO 2 ''up'')
       < ucast LOOP_INTERVAL_MS"
    by (simp add: m LOOP_INTERVAL_MS_def)
  have h2: "reading (Shared_init 0) (board_at 5 False []) (OptaButton_default GPIO 2 ''up'')
       \<noteq> rawState (OptaButton_default GPIO 2 ''up'')"
    using r by simp
  have h3: "\<not> debouncing (OptaButton_default GPIO 2 ''up'')" by simp
  show ?thesis
    using h1 h2 h3 r update_edge [OF h1 h2 h3]
    by (simp add: pressed_at_5_def m)
qed

text \<open>
  C4: take a call of \<open>update()\<close> made while long press is active and debounce is over, in
  a state the main loop can reach (\<open>consistent\<close>). The call is one in which the repeat test
  is reached with long press still active: it is not skipped by the rate limit and the button
  is still read as pressed (a released reading is the release edge, which ends long press
  before the test). When the time since \<open>lastRepeatTime\<close> is at least the current repeat
  interval, \<open>isRepeating()\<close> is true after the call and \<open>lastRepeatTime\<close> has advanced by
  exactly that interval; it is not set to the clock value, so the time the schedule is behind
  is the old one less one interval. The button is again in long press and out of debounce, so
  the same holds for the next call: lemma \<open>repeat_catch_up\<close> follows a run of \<open>k\<close> calls
  made while the schedule is at least \<open>k\<close> intervals behind, and every one of them fires.
\<close>

theorem update_repeat:
  assumes "\<not> millis hw - lastUpdateTime b < ucast LOOP_INTERVAL_MS"
    and "consistent b" and "\<not> debouncing b" and "longPressActive b"
    and "reading g hw b"
    and "ucast (currentRepeatInterval b) \<le> millis hw - lastRepeatTime b"
  shows "isRepeating (snd (update g hw b))
    \<and> lastRepeatTime (snd (update g hw b)) = lastRepeatTime b + ucast (currentRepeatInterval b)
    \<and> millis hw - lastRepeatTime (snd (update g hw b))
         = (millis hw - lastRepeatTime b) - ucast (currentRepeatInterval b)
    \<and> consistent (snd (update g hw b)) \<and> \<not> debouncing (snd (update g hw b))
    \<and> longPressActive (snd (update g hw b))"
proof -
  have ns: "millis hw \<noteq> lastUpdateTime b" using assms(1) by (simp add: too_soon_iff)
  have p: "snd (update g hw b) = poll (intWidth hw) b (millis hw) True"
    using assms(5) by (simp add: update_button)
  show ?thesis
    unfolding p isRepeating_def
    using poll_hold_repeat [OF ns assms(2,3,4,6)] consistent_poll [OF assms(2)]
    by simp
qed

theorem update_repeat_witness:
  "\<not> millis (board_at 1800 False []) - lastUpdateTime held_long < ucast LOOP_INTERVAL_MS
   \<and> consistent held_long \<and> \<not> debouncing held_long \<and> longPressActive held_long
   \<and> reading (Shared_init 0) (board_at 1800 False []) held_long
   \<and> ucast (currentRepeatInterval held_long)
        \<le> millis (board_at 1800 False []) - lastRepeatTime held_long
   \<and> isRepeating (snd (update (Shared_init 0) (board_at 1800 False []) held_long))
   \<and> lastRepeatTime (snd (update (Shared_init 0) (board_at 1800 False []) held_long)) = 1800"
proof -
  have h1: "\<not> millis (board_at 1800 False []) - lastUpdateTime held_long < ucast LOOP_INTERVAL_MS"
    by (simp add: LOOP_INTERVAL_MS_def)
  have h2: "consistent held_long" by (simp add: consistent_def)
  have h3: "\<not> debouncing held_long" by simp
  have h4: "longPressActive held_long" by simp
  have h5: "reading (Shared_init 0) (board_at 1800 False []) held_long"
    by (rule held_long_reading)
  have h6: "ucast (currentRepeatInterval held_long)
        \<le> millis (board_at 1800 False []) - lastRepeatTime held_long"
    by simp
  show ?thesis
    using h1 h2 h3 h4 h5 h6 update_repeat [OF h1 h2 h3 h4 h5 h6] by simp
qed

text \<open>
  C5, as stated: an ExpansionChannel button whose channel no enumerated expansion claims reads
  not-pressed, also when the inversion flag is set. \<open>readInput()\<close> has one exit, which
  applies the inversion to whatever \<open>raw\<close> holds, the default \<open>false\<close> included: an
  inverted button on a controller without digital expansions reads pressed.
\<close>

theorem readInput_unclaimed_inverted:
  "fst (readInput (Shared_init 0) (board_at 7 False [NoDigitalExpansion, NoDigitalExpansion])
          (OptaButton_new EXP_DIG 3 ''inv'' 20 True 800 100 8 100)) = True"
  by (simp add: readInput_def board_at_def OptaButton_new_def)

text \<open>
  C5, amended: for an ExpansionChannel button, when no index holds a digital expansion,
  \<open>readInput()\<close> returns the inversion flag (not-pressed for a button that is not inverted,
  pressed for an inverted one), and nothing is refreshed.
\<close>

theorem readInput_unclaimed:
  assumes "inputMode b = EXP_DIG" and "set (expansions hw) \<subseteq> {NoDigitalExpansion}"
  shows "readInput g hw b = (invertedLogic b, g)"
  using assms by (simp add: readInput_def scan_expansions_none)

theorem readInput_unclaimed_witness:
  "inputMode (OptaButton_default EXP_DIG 3 ''exp'') = EXP_DIG
   \<and> set (expansions (board_at 7 False [NoDigitalExpansion, NoDigitalExpansion]))
        \<subseteq> {NoDigitalExpansion}
   \<and> readInput (Shared_init 0) (board_at 7 False [NoDigitalExpansion, NoDigitalExpansion])
        (OptaButton_default EXP_DIG 3 ''exp'') = (False, Shared_init 0)"
proof -
  have m: "inputMode (OptaButton_default EXP_DIG 3 ''exp'') = EXP_DIG"
    by (simp add: OptaButton_default_def OptaButton_new_def)
  have e: "set (expansions (board_at 7 False [NoDigitalExpansion, NoDigitalExpansion]))
        \<subseteq> {NoDigitalExpansion}"
    by (simp add: board_at_def)
  have i: "invertedLogic (OptaButton_default EXP_DIG 3 ''exp'') = False"
    by (simp add: OptaButton_default_def OptaButton_new_def)
  show ?thesis using m e readInput_unclaimed [OF m e, of "Shared_init 0"] by (simp add: i)
qed

text \<open>
  C6: an edge is detected in a call at clock value \<open>now0\<close>. However the reading bounces in
  the calls that follow less than the debounce window after \<open>now0\<close> (\<open>early\<close>: their
  distances from \<open>now0\<close> in ms and their readings), none of them reports short-press or
  release, and the button is still in debounce after each. In the first call at least the
  window after \<open>now0\<close> debounce ends; that call too reports no edge (when the window is
  not zero: with a zero window debounce ended in the call of the edge itself). Any later call
  at another clock value whose reading differs from the recorded raw state reports the edge.
\<close>

theorem debounce_window:
  fixes iw :: IntWidth and early :: "(nat \<times> bool) list" and dk :: nat and rk :: bool
  assumes "now0 \<noteq> lastUpdateTime b" and "\<not> debouncing b" and "r0 \<noteq> rawState b"
    and "\<forall>p\<in>set early. fst p < unat (debounceTime b)"
    and "unat (debounceTime b) \<le> dk" and "dk < 2 ^ 32"
  defines "b0 \<equiv> poll iw b now0 r0"
  defines "bs \<equiv> trace iw b0 (map (\<lambda>p. (now0 + of_nat (fst p), snd p)) early)"
  defines "bk \<equiv> poll iw (last (b0 # bs)) (now0 + of_nat dk) rk"
  shows "(\<forall>s\<in>set bs. \<not> isShortPressed s \<and> \<not> isReleased s \<and> debouncing s)
       \<and> \<not> debouncing bk
       \<and> (debounceTime b \<noteq> 0 \<longrightarrow> \<not> isShortPressed bk \<and> \<not> isReleased bk)
       \<and> (\<forall>now' r'. now' \<noteq> now0 + of_nat dk \<and> r' \<noteq> rawState bk
            \<longrightarrow> isShortPressed (poll iw bk now' r') = r' \<and> isReleased (poll iw bk now' r') = (\<not> r'))"
proof -
  note e0 = poll_edge [OF assms(1,2,3)]
  have later: "\<forall>now' r'. now' \<noteq> now0 + of_nat dk \<and> r' \<noteq> rawState bk
            \<longrightarrow> isShortPressed (poll iw bk now' r') = r' \<and> isReleased (poll iw bk now' r') = (\<not> r')"
    if nd: "\<not> debouncing bk"
  proof (intro allI impI)
    fix now' r' assume a: "now' \<noteq> now0 + of_nat dk \<and> r' \<noteq> rawState bk"
    have ns: "now' \<noteq> lastUpdateTime bk" using a by (simp add: bk_def)
    have rr: "r' \<noteq> rawState bk" using a by simp
    show "isShortPressed (poll iw bk now' r') = r' \<and> isReleased (poll iw bk now' r') = (\<not> r')"
      using poll_edge(1,2) [OF ns nd rr] by (simp add: isShortPressed_def isReleased_def)
  qed
  show ?thesis
  proof (cases "debounceTime b = 0")
    case True
    have "early = []" using assms(4) True by (cases early) auto
    then have bs: "bs = []" by (simp add: bs_def)
    have d0: "\<not> debouncing b0" using e0(5) True by (simp add: b0_def)
    have w0: "debounceTime b0 = 0" using e0(6) True by (simp add: b0_def)
    have nd: "\<not> debouncing bk"
      unfolding bk_def bs using poll_zero_window [OF d0 w0] by simp
    show ?thesis using bs nd True later [OF nd] by simp
  next
    case False
    then have pos: "0 < unat (debounceTime b)" by (simp add: unat_gt_0)
    have j1: "debouncing b0" using e0(5) False by (simp add: b0_def)
    have j2: "edgeTime b0 = now0" using e0(3) by (simp add: b0_def)
    have w: "debounceTime b0 = debounceTime b" using e0(6) by (simp add: b0_def)
    have j3: "unat (lastUpdateTime b0 - now0) < unat (debounceTime b0)"
      using pos by (simp add: b0_def w [unfolded b0_def])
    have j4: "\<forall>p\<in>set early. fst p < unat (debounceTime b0)" using assms(4) w by simp
    note tr = trace_in_debounce [OF j1 j2 j3 j4, where iw = iw, folded bs_def]
    have k1: "debouncing (last (b0 # bs))" using tr by simp
    have k2: "edgeTime (last (b0 # bs)) = now0" using tr by simp
    have kw: "debounceTime (last (b0 # bs)) = debounceTime b" using tr w by simp
    have k3: "unat (lastUpdateTime (last (b0 # bs)) - now0) < unat (debounceTime (last (b0 # bs)))"
      using tr w kw by simp
    have k4: "unat (debounceTime (last (b0 # bs))) \<le> dk" using assms(5) kw by simp
    note en = poll_debounce_end [OF k1 k2 k3 k4 assms(6), where r = rk and iw = iw, folded bk_def]
    have nd: "\<not> debouncing bk" by (rule en(3))
    show ?thesis
      using tr en later [OF nd] by (simp add: isShortPressed_def isReleased_def)
  qed
qed

theorem debounce_window_witness:
  "(5::u32) \<noteq> lastUpdateTime (OptaButton_default GPIO 2 ''up'')
   \<and> \<not> debouncing (OptaButton_default GPIO 2 ''up'')
   \<and> True \<noteq> rawState (OptaButton_default GPIO 2 ''up'')
   \<and> (3::nat) < unat (debounceTime (OptaButton_default GPIO 2 ''up''))
   \<and> (10::nat) < unat (debounceTime (OptaButton_default GPIO 2 ''up''))
   \<and> (19::nat) < unat (debounceTime (OptaButton_default GPIO 2 ''up''))
   \<and> unat (debounceTime (OptaButton_default GPIO 2 ''up'')) \<le> 20 \<and> (20::nat) < 2 ^ 32
   \<and> \<not> debouncing (poll Int32 (last (poll Int32 (OptaButton_default GPIO 2 ''up'') 5 True
          # trace Int32 (poll Int32 (OptaButton_default GPIO 2 ''up'') 5 True)
              (map (\<lambda>p. (5 + of_nat (fst p), snd p)) [(3, False), (10, True), (19, False)])))
        (5 + of_nat 20) False)
   \<and> \<not> isReleased (poll Int32 (last (poll Int32 (OptaButton_default GPIO 2 ''up'') 5 True
          # trace Int32 (poll Int32 (OptaButton_default GPIO 2 ''up'') 5 True)
              (map (\<lambda>p. (5 + of_nat (fst p), snd p)) [(3, False), (10, True), (19, False)])))
        (5 + of_nat 20) False)"
proof -
  let ?b = "OptaButton_default GPIO 2 ''up''"
  have h1: "(5::u32) \<noteq> lastUpdateTime ?b" by simp
  have h2: "\<not> debouncing ?b" by simp
  have h3: "True \<noteq> rawState ?b" by simp
  have h4: "\<forall>p\<in>set [(3::nat, False), (10, True), (19, False)]. fst p < unat (debounceTime ?b)"
    by simp
  have h5: "unat (debounceTime ?b) \<le> 20" by simp
  have h6: "(20::nat) < 2 ^ 32" by simp
  have n0: "debounceTime ?b \<noteq> 0" by simp
  show ?thesis
    using h1 h2 h3 h4 h5 h6 n0 debounce_window [OF h1 h2 h3 h4 h5 h6, where rk = False and iw = Int32]
    by simp
qed

text \<open>
  C7, as stated: in a call of \<open>update()\<close> made while long press is active and out of
  debounce, at least 1000 ms after the last acceleration timestamp, the repeat interval
  decreases by the acceleration step, floored at the configured minimum: it never goes below
  the minimum. The comment at line 141 of the source says the same (\<open>never go below the
  configured minimum\<close>). The floor is taken by \<open>max\<close> on two values cast to \<open>int\<close>. With
  the 32-bit \<open>int\<close> of the Opta the claim holds (\<open>update_accelerate\<close>), and with a 16-bit
  \<open>int\<close> it holds for every interval below 32768 ms. On the AVR boards that the header names
  as supported \<open>int\<close> has 16 bits, and an interval or a minimum of 32768 ms or more is
  negative as an \<open>int\<close>. Below: a GPIO button constructed with a repeat interval of
  32800 ms, a minimum of 32768 ms and a step of 100 ms, on an AVR board, its pin held LOW;
  \<open>update()\<close> is called at the clock values 5 (the press), 805 (long press begins) and 1805
  (one second later, the first acceleration step). After the third call the interval is
  32700 ms, below the minimum of 32768 ms. The same three calls on the Opta leave the interval
  at the minimum.
\<close>

theorem accel_below_minimum_int16:
  "currentRepeatInterval (last (updates (Shared_init 0) slow_button
       [avr_board_at 5 False, avr_board_at 805 False, avr_board_at 1805 False])) = 32700
   \<and> repeatIntervalMin (last (updates (Shared_init 0) slow_button
       [avr_board_at 5 False, avr_board_at 805 False, avr_board_at 1805 False])) = 32768
   \<and> currentRepeatInterval (last (updates (Shared_init 0) slow_button
       [board_at 5 False [], board_at 805 False [], board_at 1805 False []])) = 32768"
proof -
  have r: "reading g (avr_board_at t False) (poll iw b now x) = True"
    if "inputMode b = GPIO" "\<not> invertedLogic b" for g t iw b now x
    using that by (simp add: reading_gpio poll_wiring)
  have r0: "reading g (avr_board_at t False) slow_button = True" for g t
    by (simp add: reading_gpio)
  have l: "last (updates (Shared_init 0) slow_button
       [avr_board_at 5 False, avr_board_at 805 False, avr_board_at 1805 False])
     = poll Int16 (poll Int16 (poll Int16 slow_button 5 True) 805 True) 1805 True"
    by (simp add: update_button r0 r poll_wiring)
  have r': "reading g (board_at t False []) (poll iw b now x) = True"
    if "inputMode b = GPIO" "\<not> invertedLogic b" for g t iw b now x
    using that by (simp add: reading_gpio poll_wiring board_at_def)
  have r0': "reading g (board_at t False []) slow_button = True" for g t
    by (simp add: reading_gpio board_at_def)
  have w: "intWidth (board_at t False []) = Int32" for t by (simp add: board_at_def)
  have l': "last (updates (Shared_init 0) slow_button
       [board_at 5 False [], board_at 805 False [], board_at 1805 False []])
     = poll Int32 (poll Int32 (poll Int32 slow_button 5 True) 805 True) 1805 True"
    by (simp add: update_button r0' r' poll_wiring w)
  show ?thesis
    unfolding l l'
    by (simp add: slow_accel poll_config accel_interval_def int16_below_floor
        int32_above_floor)
qed

text \<open>
  C8: the elapsed-time tests of \<open>update()\<close> are taken on \<open>now - timestamp\<close> in 32-bit
  unsigned arithmetic and give the right answer across the wrap of the clock. Let \<open>N\<close> be
  the true time of the call in ms and \<open>Tu\<close>, \<open>Te\<close>, \<open>Tr\<close>, \<open>Ta\<close> the true times at which
  \<open>lastUpdateTime\<close>, \<open>edgeTime\<close>, \<open>lastRepeatTime\<close> and \<open>lastAccelUpdate\<close> were taken, so
  that each member holds its time modulo \<open>2 ^ 32\<close> and \<open>millis()\<close> returns \<open>N\<close> modulo
  \<open>2 ^ 32\<close>, however often the clock has wrapped in between; each true elapsed time is below
  \<open>2 ^ 32\<close>. Then the whole call behaves as the tests on the true elapsed times say. It is
  skipped exactly when \<open>N - Tu < 1\<close>. Otherwise, with \<open>edge\<close> for an edge detected in this
  call and \<open>Te'\<close>, \<open>Tr'\<close>, \<open>Ta'\<close> for the true times of the timestamps as this call resets
  them: debounce goes on exactly while \<open>N - Te'\<close> is below the debounce time; long press is
  entered exactly when the button is pressed, out of debounce, not yet reported, and
  \<open>N - Te'\<close> has reached the threshold; a repeat fires exactly when long press is active and
  \<open>N - Tr'\<close> has reached the interval, and the schedule advances by one interval in true
  time, not beyond \<open>N\<close>; the acceleration step is taken exactly when \<open>N - Ta'\<close> has reached
  1000 and the interval is above the minimum. The timestamps after the call are again true
  times modulo \<open>2 ^ 32\<close>.
\<close>

theorem update_across_wrap:
  fixes g :: Shared and hw :: Board and b :: OptaButton and N Tu Te Tr Ta :: nat
  assumes "millis hw = of_nat N"
    and "lastUpdateTime b = of_nat Tu" and "Tu \<le> N" and "N - Tu < 2 ^ 32"
    and "edgeTime b = of_nat Te" and "Te \<le> N" and "N - Te < 2 ^ 32"
    and "lastRepeatTime b = of_nat Tr" and "Tr \<le> N" and "N - Tr < 2 ^ 32"
    and "lastAccelUpdate b = of_nat Ta" and "Ta \<le> N" and "N - Ta < 2 ^ 32"
  defines "b' \<equiv> snd (update g hw b)" and "p \<equiv> reading g hw b"
  defines "edge \<equiv> p \<noteq> rawState b \<and> \<not> debouncing b"
  defines "Te' \<equiv> if edge then N else Te"
  defines "cur \<equiv> if edge \<and> p then repeatIntervalStart b else currentRepeatInterval b"
  defines "Tr' \<equiv> if edge \<and> p \<or> isLongPressed b' then N else Tr"
  defines "Ta' \<equiv> if edge \<and> p \<or> isLongPressed b' then N else Ta"
  defines "faster \<equiv> \<not> debouncing b' \<and> currentPressed b' \<and> longPressActive b'
                      \<and> 1000 \<le> N - Ta' \<and> repeatIntervalMin b < cur"
  shows "(N - Tu < 1 \<longrightarrow> update g hw b = (g, clear_flags b))
     \<and> (1 \<le> N - Tu \<longrightarrow>
          lastUpdateTime b' = of_nat N
        \<and> edgeTime b' = of_nat Te'
        \<and> debouncing b' = ((edge \<or> debouncing b) \<and> N - Te' < unat (debounceTime b))
        \<and> currentPressed b' = (if edge then p else currentPressed b)
        \<and> longPressActive b' = (isLongPressed b' \<or> \<not> edge \<and> longPressActive b)
        \<and> isLongPressed b'
            = (\<not> debouncing b' \<and> currentPressed b'
               \<and> \<not> (longPressReported b \<and> \<not> (edge \<and> \<not> p))
               \<and> unat (longPressThreshold b) \<le> N - Te')
        \<and> isRepeating b'
            = (\<not> debouncing b' \<and> currentPressed b' \<and> longPressActive b'
               \<and> unat cur \<le> N - Tr')
        \<and> lastRepeatTime b' = of_nat (if isRepeating b' then Tr' + unat cur else Tr')
        \<and> (if isRepeating b' then Tr' + unat cur else Tr') \<le> N
        \<and> currentRepeatInterval b'
            = (if faster then accel_interval (intWidth hw) cur (acceleration b) (repeatIntervalMin b)
               else cur)
        \<and> lastAccelUpdate b' = of_nat (if faster then N else Ta'))"
proof -
  let ?now = "of_nat N :: u32"
  have ue: "unat (?now - of_nat Te) = N - Te" by (rule unat_elapsed [OF assms(6,7)])
  have ur: "unat (?now - of_nat Tr) = N - Tr" by (rule unat_elapsed [OF assms(9,10)])
  have ua: "unat (?now - of_nat Ta) = N - Ta" by (rule unat_elapsed [OF assms(12,13)])
  have uu: "unat (?now - of_nat Tu) = N - Tu" by (rule unat_elapsed [OF assms(3,4)])
  have skip: "update g hw b = (g, clear_flags b)" if "N - Tu < 1"
  proof -
    have "N = Tu" using that assms(3) by simp
    then show ?thesis by (simp add: update_skip assms(1,2))
  qed
  have run: "b' = state_machine (intWidth hw) ((clear_flags b)\<lparr> lastUpdateTime := ?now \<rparr>) ?now p"
    if "1 \<le> N - Tu"
  proof -
    have "?now \<noteq> of_nat Tu" using uu that by auto
    then show ?thesis
      by (simp add: b'_def p_def update_button assms(1,2) poll_run)
  qed
  have main: "lastUpdateTime b' = of_nat N
        \<and> edgeTime b' = of_nat Te'
        \<and> debouncing b' = ((edge \<or> debouncing b) \<and> N - Te' < unat (debounceTime b))
        \<and> currentPressed b' = (if edge then p else currentPressed b)
        \<and> longPressActive b' = (isLongPressed b' \<or> \<not> edge \<and> longPressActive b)
        \<and> isLongPressed b'
            = (\<not> debouncing b' \<and> currentPressed b'
               \<and> \<not> (longPressReported b \<and> \<not> (edge \<and> \<not> p))
               \<and> unat (longPressThreshold b) \<le> N - Te')
        \<and> isRepeating b'
            = (\<not> debouncing b' \<and> currentPressed b' \<and> longPressActive b'
               \<and> unat cur \<le> N - Tr')
        \<and> lastRepeatTime b' = of_nat (if isRepeating b' then Tr' + unat cur else Tr')
        \<and> (if isRepeating b' then Tr' + unat cur else Tr') \<le> N
        \<and> currentRepeatInterval b'
            = (if faster then accel_interval (intWidth hw) cur (acceleration b) (repeatIntervalMin b)
               else cur)
        \<and> lastAccelUpdate b' = of_nat (if faster then N else Ta')" if r: "1 \<le> N - Tu"
  proof -
    define be where "be = edge_block ((clear_flags b)\<lparr> lastUpdateTime := ?now \<rparr>) ?now p"
    define bd where "bd = debounce_block be ?now"
    define bl where "bl = long_press_block bd ?now"
    define br where "br = repeat_block bl ?now"
    define ba where "ba = accel_block (intWidth hw) br ?now"
    define hold where "hold = (\<not> debouncing bd \<and> currentPressed bd)"
    define lp where "lp = (\<not> (longPressReported b \<and> \<not> (edge \<and> \<not> p))
                            \<and> unat (longPressThreshold b) \<le> N - Te')"
    define Tr1 where "Tr1 = (if edge \<and> p \<or> lp then N else Tr)"
    define Ta1 where "Ta1 = (if edge \<and> p \<or> lp then N else Ta)"
    define rp where "rp = ((lp \<or> \<not> edge \<and> longPressActive b) \<and> unat cur \<le> N - Tr1)"
    define ac where "ac = ((lp \<or> \<not> edge \<and> longPressActive b) \<and> 1000 \<le> N - Ta1
                            \<and> repeatIntervalMin b < cur)"
    have b': "b' = (if hold then ba else bd)"
      by (simp add: run [OF r] state_machine_def hold_block_def be_def bd_def bl_def br_def
          ba_def hold_def)
    \<comment> \<open>after the edge block\<close>
    have e1: "edgeTime be = of_nat Te'" "debouncing be = (edge \<or> debouncing b)"
      "currentPressed be = (if edge then p else currentPressed b)"
      "longPressActive be = (\<not> edge \<and> longPressActive b)"
      "longPressReported be = (longPressReported b \<and> \<not> (edge \<and> \<not> p))"
      "currentRepeatInterval be = cur"
      "lastRepeatTime be = of_nat (if edge \<and> p then N else Tr)"
      "lastAccelUpdate be = of_nat (if edge \<and> p then N else Ta)"
      "longPressDetected be = False" "repeatTriggered be = False"
      "lastUpdateTime be = of_nat N"
      "debounceTime be = debounceTime b" "longPressThreshold be = longPressThreshold b"
      "repeatIntervalMin be = repeatIntervalMin b" "acceleration be = acceleration b"
      by (auto simp add: be_def edge_def Te'_def cur_def assms(5,8,11))
    have eT: "unat (?now - of_nat Te') = N - Te'"
      by (simp add: Te'_def ue)
    \<comment> \<open>after the debounce block\<close>
    have d1: "debouncing bd = ((edge \<or> debouncing b) \<and> N - Te' < unat (debounceTime b))"
      by (simp add: bd_def e1 ucast16_le_iff eT not_le)
    have d2: "edgeTime bd = of_nat Te'" "currentPressed bd = (if edge then p else currentPressed b)"
      "longPressActive bd = (\<not> edge \<and> longPressActive b)"
      "longPressReported bd = (longPressReported b \<and> \<not> (edge \<and> \<not> p))"
      "currentRepeatInterval bd = cur"
      "lastRepeatTime bd = of_nat (if edge \<and> p then N else Tr)"
      "lastAccelUpdate bd = of_nat (if edge \<and> p then N else Ta)"
      "longPressDetected bd = False" "repeatTriggered bd = False"
      "lastUpdateTime bd = of_nat N"
      "longPressThreshold bd = longPressThreshold b"
      "repeatIntervalMin bd = repeatIntervalMin b" "acceleration bd = acceleration b"
      by (simp_all add: bd_def e1)
    \<comment> \<open>after the long-press block\<close>
    have l0: "(\<not> longPressReported bd \<and> ucast (longPressThreshold bd) \<le> ?now - edgeTime bd) = lp"
      by (simp add: d2 ucast16_le_iff eT lp_def)
    have l1: "longPressDetected bl = lp" "longPressActive bl = (lp \<or> \<not> edge \<and> longPressActive b)"
      "lastRepeatTime bl = of_nat Tr1" "lastAccelUpdate bl = of_nat Ta1"
      "currentRepeatInterval bl = cur" "repeatTriggered bl = False"
      "edgeTime bl = of_nat Te'" "debouncing bl = debouncing bd"
      "currentPressed bl = currentPressed bd" "lastUpdateTime bl = of_nat N"
      "repeatIntervalMin bl = repeatIntervalMin b" "acceleration bl = acceleration b"
      using l0 by (auto simp add: bl_def d2 Tr1_def Ta1_def)
    have rT: "unat (?now - of_nat Tr1) = N - Tr1" by (simp add: Tr1_def ur)
    have aT: "unat (?now - of_nat Ta1) = N - Ta1" by (simp add: Ta1_def ua)
    have tr1: "Tr1 \<le> N" using assms(9) by (simp add: Tr1_def)
    \<comment> \<open>after the repeat block\<close>
    have r0: "(longPressActive bl \<and> ucast (currentRepeatInterval bl) \<le> ?now - lastRepeatTime bl) = rp"
      by (simp add: l1 ucast16_le_iff rT rp_def)
    have r1: "repeatTriggered br = rp"
      "lastRepeatTime br = of_nat (if rp then Tr1 + unat cur else Tr1)"
      "longPressDetected br = lp" "longPressActive br = (lp \<or> \<not> edge \<and> longPressActive b)"
      "lastAccelUpdate br = of_nat Ta1" "currentRepeatInterval br = cur"
      "edgeTime br = of_nat Te'" "debouncing br = debouncing bd"
      "currentPressed br = currentPressed bd" "lastUpdateTime br = of_nat N"
      "repeatIntervalMin br = repeatIntervalMin b" "acceleration br = acceleration b"
      using r0 by (auto simp add: br_def l1)
    have r2: "(if rp then Tr1 + unat cur else Tr1) \<le> N"
      using tr1 by (auto simp add: rp_def)
    \<comment> \<open>after the acceleration block\<close>
    have a0: "(longPressActive br \<and> 1000 \<le> ?now - lastAccelUpdate br
               \<and> repeatIntervalMin br < currentRepeatInterval br) = ac"
      by (simp add: r1 le_1000_iff aT ac_def)
    have a1: "currentRepeatInterval ba
               = (if ac then accel_interval (intWidth hw) cur (acceleration b) (repeatIntervalMin b)
                  else cur)"
      "lastAccelUpdate ba = of_nat (if ac then N else Ta1)"
      "repeatTriggered ba = rp"
      "lastRepeatTime ba = of_nat (if rp then Tr1 + unat cur else Tr1)"
      "longPressDetected ba = lp" "longPressActive ba = (lp \<or> \<not> edge \<and> longPressActive b)"
      "edgeTime ba = of_nat Te'" "debouncing ba = debouncing bd"
      "currentPressed ba = currentPressed bd" "lastUpdateTime ba = of_nat N"
      using a0 by (auto simp add: ba_def r1)
    show ?thesis
    proof (cases hold)
      case True
      have h: "\<not> debouncing bd" "currentPressed bd" using True by (simp_all add: hold_def)
      have il: "isLongPressed b' = lp" by (simp add: isLongPressed_def b' True a1)
      have t: "Tr' = Tr1" "Ta' = Ta1" by (simp_all add: Tr'_def Ta'_def Tr1_def Ta1_def il)
      have f: "faster = ac"
        by (simp add: faster_def b' True a1 h t ac_def)
      show ?thesis
        unfolding t f il using h r2 d1 d2(2)
        by (auto simp add: isRepeating_def b' True a1 lp_def rp_def)
    next
      case False
      have il: "isLongPressed b' = False" by (simp add: isLongPressed_def b' False d2)
      have t: "Tr' = (if edge \<and> p then N else Tr)" "Ta' = (if edge \<and> p then N else Ta)"
        by (simp_all add: Tr'_def Ta'_def il)
      have nf: "\<not> faster" using False by (auto simp add: faster_def b' hold_def)
      have nh: "\<not> (\<not> debouncing bd \<and> currentPressed bd)" using False by (simp add: hold_def)
      show ?thesis
        unfolding t il using nh nf assms(9) d1
        by (auto simp add: isRepeating_def b' False d2)
    qed
  qed
  show ?thesis using skip main by blast
qed
theorem update_across_wrap_witness:
  "millis (board_at 7 False []) = of_nat 4294967303
   \<and> lastUpdateTime near_wrap = of_nat 4294967295 \<and> (4294967295::nat) \<le> 4294967303
   \<and> (4294967303::nat) - 4294967295 < 2 ^ 32
   \<and> edgeTime near_wrap = of_nat 4294967276 \<and> (4294967276::nat) \<le> 4294967303
   \<and> (4294967303::nat) - 4294967276 < 2 ^ 32
   \<and> lastRepeatTime near_wrap = of_nat 4294967196 \<and> (4294967196::nat) \<le> 4294967303
   \<and> (4294967303::nat) - 4294967196 < 2 ^ 32
   \<and> lastAccelUpdate near_wrap = of_nat 4294966303 \<and> (4294966303::nat) \<le> 4294967303
   \<and> (4294967303::nat) - 4294966303 < 2 ^ 32
   \<and> \<not> debouncing (snd (update (Shared_init 0) (board_at 7 False []) near_wrap))
   \<and> \<not> isLongPressed (snd (update (Shared_init 0) (board_at 7 False []) near_wrap))
   \<and> isRepeating (snd (update (Shared_init 0) (board_at 7 False []) near_wrap))
   \<and> lastRepeatTime (snd (update (Shared_init 0) (board_at 7 False []) near_wrap)) = 0
   \<and> currentRepeatInterval (snd (update (Shared_init 0) (board_at 7 False []) near_wrap)) = 8
   \<and> lastAccelUpdate (snd (update (Shared_init 0) (board_at 7 False []) near_wrap)) = 7"
proof -
  let ?hw = "board_at 7 False []"
  let ?b' = "snd (update (Shared_init 0) ?hw near_wrap)"
  have h1: "millis ?hw = of_nat 4294967303" by simp
  have h2: "lastUpdateTime near_wrap = of_nat 4294967295" by simp
  have h3: "(4294967295::nat) \<le> 4294967303" by simp
  have h4: "(4294967303::nat) - 4294967295 < 2 ^ 32" by simp
  have h5: "edgeTime near_wrap = of_nat 4294967276" by simp
  have h6: "(4294967276::nat) \<le> 4294967303" by simp
  have h7: "(4294967303::nat) - 4294967276 < 2 ^ 32" by simp
  have h8: "lastRepeatTime near_wrap = of_nat 4294967196" by simp
  have h9: "(4294967196::nat) \<le> 4294967303" by simp
  have h10: "(4294967303::nat) - 4294967196 < 2 ^ 32" by simp
  have h11: "lastAccelUpdate near_wrap = of_nat 4294966303" by simp
  have h12: "(4294966303::nat) \<le> 4294967303" by simp
  have h13: "(4294967303::nat) - 4294966303 < 2 ^ 32" by simp
  have rd: "reading (Shared_init 0) ?hw near_wrap" by (rule near_wrap_reading)
  have raw: "rawState near_wrap" "currentPressed near_wrap"
    by (simp_all add: near_wrap_def)
  have iw: "intWidth ?hw = Int32" by (simp add: board_at_def)
  have ai: "accel_interval Int32 100 100 8 = 8"
    by (simp add: accel_interval_def accel_interval_int32_def)
  note th = update_across_wrap [OF h1 h2 h3 h4 h5 h6 h7 h8 h9 h10 h11 h12 h13,
      where g = "Shared_init 0"]
  have d: "\<not> debouncing ?b'" using th rd raw by simp
  have l: "\<not> isLongPressed ?b'" using th rd raw by simp
  have c: "currentPressed ?b'" "longPressActive ?b'" using th rd raw by simp_all
  have rp: "isRepeating ?b'" using th rd raw d l c by simp
  have lr: "lastRepeatTime ?b' = 0" using th rd raw d l c rp by simp
  have ci: "currentRepeatInterval ?b' = 8" using th rd raw d l c iw ai by simp
  have la: "lastAccelUpdate ?b' = 7" using th rd raw d l c by simp
  show ?thesis
    using h1 h2 h3 h4 h5 h6 h7 h8 h9 h10 h11 h12 h13 d l rp lr ci la by simp
qed

text \<open>
  C9: the refresh token is advanced at most once per clock tick, and therefore the expansion
  bus is refreshed at most once per token value however many ExpansionChannel buttons read
  within the tick. The first half holds (\<open>update_token\<close>,
  \<open>same_tick_same_token\<close>). The second does not: the
  gate in \<open>readInput()\<close> compares the token with \<open>lastRefreshToken\<close> but records the
  refresh in \<open>lastExpRefreshToken\<close>, so what it compares with never changes. Two
  ExpansionChannel buttons updated at the same clock value 5 both call
  \<open>updateDigitalInputs()\<close> of the expansion at index 0, both at token value 1
  (\<open>refresh_each_read\<close> is the general fact).
\<close>

theorem refresh_twice_in_one_generation:
  "refreshCalls (fst (update (fst (update (Shared_init 0) (board_at 5 False one_mech)
        (OptaButton_default EXP_DIG 1 ''A''))) (board_at 5 False one_mech)
        (OptaButton_default EXP_DIG 2 ''B''))) = [(0, 1), (0, 1)]"
  by (simp add: update_def Let_def readInput_def advance_token_def refresh_gate_def
      Shared_init_def board_at_def one_mech_def OptaButton_default_def OptaButton_new_def
      LOOP_INTERVAL_MS_def split: prod.splits)

text \<open>
  C10: after any call of \<open>update()\<close>, \<open>isShortPressed()\<close> and \<open>isReleased()\<close> are not both
  true.
\<close>

theorem update_short_release_exclusive:
  "\<not> (isShortPressed (snd (update g hw b)) \<and> isReleased (snd (update g hw b)))"
  unfolding update_button isShortPressed_def isReleased_def
  by (simp add: poll_def state_machine_def hold_block_def Let_def)

end
